theory Spec2Isabelle
  imports Complex_Main "HOL-Library.Multiset"
begin

section \<open>Strings\<close>

text \<open>
  A Go string is modelled as a \<open>char list\<close>, the list of its bytes.
  \<open>strings.ToLower\<close> and \<open>strings.TrimSpace\<close> are their restrictions to the ASCII
  range: they change and trim ASCII characters only. Separators are always single
  characters in the source (\<open>"."\<close> and \<open>" "\<close>), so \<open>strings.Split\<close> takes a
  character. The functions of the scorer that work on runes decode the bytes as UTF-8,
  see the next section.
\<close>

definition upper_chars :: string where
  "upper_chars = ''ABCDEFGHIJKLMNOPQRSTUVWXYZ''"

definition lower_chars :: string where
  "lower_chars = ''abcdefghijklmnopqrstuvwxyz''"

definition toLowerChar :: "char \<Rightarrow> char" where
  "toLowerChar c = (case map_of (zip upper_chars lower_chars) c of Some l \<Rightarrow> l | None \<Rightarrow> c)"

definition ToLower :: "string \<Rightarrow> string" where
  "ToLower s = map toLowerChar s"

definition isSpace :: "char \<Rightarrow> bool" where
  "isSpace c = (c \<in> set [CHR '' '', CHR 0x09, CHR 0x0A, CHR 0x0B, CHR 0x0C, CHR 0x0D])"

definition TrimSpace :: "string \<Rightarrow> string" where
  "TrimSpace s = rev (dropWhile isSpace (rev (dropWhile isSpace s)))"

text \<open>\<open>strings.Split(s, sep)\<close>: the pieces between the separators; one empty piece for
  the empty string.\<close>

fun Split :: "char \<Rightarrow> string \<Rightarrow> string list" where
  "Split sep [] = [[]]"
| "Split sep (c # cs) =
     (if c = sep then [] # Split sep cs
      else (case Split sep cs of [] \<Rightarrow> [[c]] | p # ps \<Rightarrow> (c # p) # ps))"

definition Contains_chr :: "string \<Rightarrow> char \<Rightarrow> bool" where
  "Contains_chr s c = (c \<in> set s)"

section \<open>Runes\<close>

text \<open>
  A rune is a code point. \<open>DecodeRune\<close> is \<open>utf8.DecodeRune\<close> on the bytes: the rune
  at the head and its width; a byte that starts no valid encoding is the rune
  \<open>RuneError\<close> of width 1. \<open>runes s\<close> is the sequence of runes that
  \<open>for _, c := range s\<close> yields, \<open>decode_from\<close> skipping the bytes of the rune decoded
  last. \<open>EncodeRune\<close> is \<open>utf8.EncodeRune\<close>.
\<close>

type_synonym rune = nat

definition RuneError :: rune where
  "RuneError = 0xFFFD"

definition continuation :: "nat \<Rightarrow> bool" where
  "continuation b = (0x80 \<le> b \<and> b \<le> 0xBF)"

fun DecodeRune :: "nat list \<Rightarrow> rune \<times> nat" where
  "DecodeRune [] = (RuneError, 0)"
| "DecodeRune (b0 # rest) =
     (if b0 < 0x80 then (b0, 1)
      else if 0xC2 \<le> b0 \<and> b0 \<le> 0xDF then
        (case rest of
           b1 # _ \<Rightarrow>
             if continuation b1 then ((b0 - 0xC0) * 64 + (b1 - 0x80), 2) else (RuneError, 1)
         | _ \<Rightarrow> (RuneError, 1))
      else if 0xE0 \<le> b0 \<and> b0 \<le> 0xEF then
        (case rest of
           b1 # b2 # _ \<Rightarrow>
             if (if b0 = 0xE0 then 0xA0 else 0x80) \<le> b1
                \<and> b1 \<le> (if b0 = 0xED then 0x9F else 0xBF) \<and> continuation b2
             then (((b0 - 0xE0) * 64 + (b1 - 0x80)) * 64 + (b2 - 0x80), 3)
             else (RuneError, 1)
         | _ \<Rightarrow> (RuneError, 1))
      else if 0xF0 \<le> b0 \<and> b0 \<le> 0xF4 then
        (case rest of
           b1 # b2 # b3 # _ \<Rightarrow>
             if (if b0 = 0xF0 then 0x90 else 0x80) \<le> b1
                \<and> b1 \<le> (if b0 = 0xF4 then 0x8F else 0xBF)
                \<and> continuation b2 \<and> continuation b3
             then ((((b0 - 0xF0) * 64 + (b1 - 0x80)) * 64 + (b2 - 0x80)) * 64 + (b3 - 0x80), 4)
             else (RuneError, 1)
         | _ \<Rightarrow> (RuneError, 1))
      else (RuneError, 1))"

fun decode_from :: "nat \<Rightarrow> nat list \<Rightarrow> rune list" where
  "decode_from skip [] = []"
| "decode_from (Suc skip) (b # bs) = decode_from skip bs"
| "decode_from 0 (b # bs) =
     (case DecodeRune (b # bs) of (r, width) \<Rightarrow> r # decode_from (width - 1) bs)"

definition runes :: "string \<Rightarrow> rune list" where
  "runes s = decode_from 0 (map of_char s)"

definition EncodeRune :: "rune \<Rightarrow> nat list" where
  "EncodeRune r =
     (if r < 0x80 then [r]
      else if r < 0x800 then [0xC0 + r div 64, 0x80 + r mod 64]
      else if (0xD800 \<le> r \<and> r \<le> 0xDFFF) \<or> r > 0x10FFFF then [0xEF, 0xBF, 0xBD]
      else if r < 0x10000 then
        [0xE0 + r div 4096, 0x80 + (r div 64) mod 64, 0x80 + r mod 64]
      else
        [0xF0 + r div 262144, 0x80 + (r div 4096) mod 64, 0x80 + (r div 64) mod 64,
         0x80 + r mod 64])"

definition rune_string :: "rune \<Rightarrow> string" where
  "rune_string r = map char_of (EncodeRune r)"

text \<open>
  The tables of Go's \<open>unicode\<close> package are not part of the repository; the scorer
  takes them as a parameter: \<open>unicode.IsLetter\<close>, \<open>unicode.IsDigit\<close> and
  \<open>unicode.ToLower\<close> on runes. \<open>latin1_tables\<close> is an instance for the examples: the
  values of the three functions on the code points below U+0100, with no letter, no
  digit and no case mapping above.
\<close>

record UnicodeTables =
  unicode_IsLetter :: "rune \<Rightarrow> bool"
  unicode_IsDigit :: "rune \<Rightarrow> bool"
  unicode_ToLower :: "rune \<Rightarrow> rune"

definition latin1_tables :: UnicodeTables where
  "latin1_tables =
     \<lparr>unicode_IsLetter = (\<lambda>r. (0x41 \<le> r \<and> r \<le> 0x5A) \<or> (0x61 \<le> r \<and> r \<le> 0x7A)
          \<or> r = 0xAA \<or> r = 0xB5 \<or> r = 0xBA \<or> (0xC0 \<le> r \<and> r \<le> 0xD6)
          \<or> (0xD8 \<le> r \<and> r \<le> 0xF6) \<or> (0xF8 \<le> r \<and> r \<le> 0xFF)),
      unicode_IsDigit = (\<lambda>r. 0x30 \<le> r \<and> r \<le> 0x39),
      unicode_ToLower = (\<lambda>r. if (0x41 \<le> r \<and> r \<le> 0x5A) \<or> (0xC0 \<le> r \<and> r \<le> 0xD6)
          \<or> (0xD8 \<le> r \<and> r \<le> 0xDE) then r + 32 else r)\<rparr>"

section \<open>Query parser (internal/domain/resolver.go)\<close>

record Query =
  Raw :: string
  Fragments :: "string list"
  HasDot :: bool
  TopLevelFragments :: "string list"
  SubdomainFragments :: "string list"

text \<open>\<open>splitAndClean\<close>: split, trim every part, keep the non-empty ones.\<close>

definition splitAndClean :: "string \<Rightarrow> char \<Rightarrow> string list" where
  "splitAndClean s sep = filter (\<lambda>part. part \<noteq> []) (map TrimSpace (Split sep s))"

text \<open>The loop \<open>for i := 1; i < len(dotParts); i++\<close> over the parts after the first.\<close>

fun subdomain_parts :: "string list \<Rightarrow> string list" where
  "subdomain_parts [] = []"
| "subdomain_parts (p # ps) =
     (if p = [] then subdomain_parts ps
      else splitAndClean p (CHR '' '') @ subdomain_parts ps)"

definition ParseQuery :: "string \<Rightarrow> Query" where
  "ParseQuery input0 =
     (let input = TrimSpace (ToLower input0) in
      if input = [] then
        \<lparr>Raw = input, Fragments = [], HasDot = False,
         TopLevelFragments = [], SubdomainFragments = []\<rparr>
      else if \<not> Contains_chr input (CHR ''.'') then
        (let fs = splitAndClean input (CHR '' '') in
         \<lparr>Raw = input, Fragments = fs, HasDot = False,
          TopLevelFragments = fs, SubdomainFragments = []\<rparr>)
      else
        (let dotParts = Split (CHR ''.'') input;
             top = (case dotParts of
                      [] \<Rightarrow> []
                    | p # _ \<Rightarrow> if p \<noteq> [] then splitAndClean p (CHR '' '') else []);
             sub = subdomain_parts (tl dotParts)
         in \<lparr>Raw = input, Fragments = top @ sub, HasDot = True,
             TopLevelFragments = top, SubdomainFragments = sub\<rparr>))"

text \<open>\<open>HostnameFragments\<close>, and \<open>normalizeFragment\<close>: \<open>strings.Map\<close> goes over the runes
  of the string, drops those that are neither letter nor digit and writes the
  encoding of the lower-case rune of the others.\<close>

definition HostnameFragments :: "string \<Rightarrow> string list" where
  "HostnameFragments hostname = Split (CHR ''.'') (ToLower hostname)"

definition normalizeFragment :: "UnicodeTables \<Rightarrow> string \<Rightarrow> string" where
  "normalizeFragment tables s =
     concat (map (\<lambda>r. rune_string (unicode_ToLower tables r))
       (filter (\<lambda>r. unicode_IsLetter tables r \<or> unicode_IsDigit tables r) (runes s)))"

section \<open>Catalog entities (internal/domain)\<close>

text \<open>
  A \<open>time.Time\<close> is modelled as the number of nanoseconds since the zero time, so that
  \<open>IsZero\<close> is equality with 0; \<open>Sub\<close> saturates at the bounds of a \<open>Duration\<close>
  (an int64 of nanoseconds), as Go's does.
\<close>

type_synonym Time = int
type_synonym Duration = int

definition IsZero :: "Time \<Rightarrow> bool" where
  "IsZero t = (t = 0)"

definition maxDuration :: Duration where
  "maxDuration = 2 ^ 63 - 1"

definition minDuration :: Duration where
  "minDuration = - (2 ^ 63)"

definition Sub :: "Time \<Rightarrow> Time \<Rightarrow> Duration" where
  "Sub t u = (if t - u > maxDuration then maxDuration
              else if t - u < minDuration then minDuration else t - u)"

record Bookmark =
  ID :: string
  Abbr :: string
  URL :: string
  Sources :: "string list"
  CreatedAt :: Time
  UpdatedAt :: Time
  Disabled :: bool

text \<open>\<open>Counter\<close> is an int64; the model keeps it as an integer and writes the
  wrap-around out where the code increments it.\<close>

record Service =
  ID :: string
  Hostname :: string
  Name :: string
  Sources :: "string list"
  LastSeenAt :: Time
  Counter :: int
  CreatedAt :: Time
  UpdatedAt :: Time
  LastUsedAt :: Time
  Disabled :: bool

section \<open>Scorer (internal/domain/scoring.go)\<close>

text \<open>
  Scores are float64 in the source. The model computes them over the reals: rounding is
  not modelled. A position is a slice index or the literal 0 in every call, so it is a
  natural number.
\<close>

definition ScoreExactMatch :: real where "ScoreExactMatch = 100"
definition ScorePrefixMatch :: real where "ScorePrefixMatch = 75"
definition ScoreSubstringMatch :: real where "ScoreSubstringMatch = 50"
definition ScoreFuzzyMatch :: real where "ScoreFuzzyMatch = 25"
definition ScorePositionBonus :: real where "ScorePositionBonus = 10"
definition ScoreLengthBonus :: real where "ScoreLengthBonus = 5"
definition ScoreExactHostnameBonus :: real where "ScoreExactHostnameBonus = 200"
definition ScoreUsageWeight :: real where "ScoreUsageWeight = 1 / 10"

record Candidate =
  Service :: Service
  LexicalScore :: real
  UsageScore :: real
  TotalScore :: real

text \<open>\<open>strings.HasPrefix(s, prefix)\<close>, \<open>strings.Index(s, substr)\<close> (\<open>-1\<close> when
  \<open>substr\<close> does not occur) and \<open>strings.Contains(s, substr)\<close>.\<close>

fun HasPrefix :: "string \<Rightarrow> string \<Rightarrow> bool" where
  "HasPrefix s [] = True"
| "HasPrefix [] (p # ps) = False"
| "HasPrefix (c # cs) (p # ps) = (c = p \<and> HasPrefix cs ps)"

fun Index :: "string \<Rightarrow> string \<Rightarrow> int" where
  "Index [] substr = (if substr = [] then 0 else - 1)"
| "Index (c # cs) substr =
     (if HasPrefix (c # cs) substr then 0
      else (let r = Index cs substr in if r < 0 then - 1 else r + 1))"

definition Contains :: "string \<Rightarrow> string \<Rightarrow> bool" where
  "Contains s substr = (Index s substr \<ge> 0)"

text \<open>\<open>strings.ContainsRune(s, r)\<close>, for a rune \<open>r\<close> that a \<open>range\<close> has yielded: the
  encoding of \<open>r\<close> occurs in \<open>s\<close> exactly when \<open>r\<close> is one of the runes of \<open>s\<close>, and
  \<open>RuneError\<close> is looked up among the decoded runes.\<close>

definition ContainsRune :: "string \<Rightarrow> rune \<Rightarrow> bool" where
  "ContainsRune s r = (r \<in> set (runes s))"

definition calculatePositionBonus :: "nat \<Rightarrow> real" where
  "calculatePositionBonus position = ScorePositionBonus * exp (- real position * (3 / 10))"

text \<open>The loop of \<open>calculateSimilarity\<close> over the runes of \<open>s1\<close>: one more match for
  every rune that occurs in \<open>s2\<close>. The number of matches is divided by \<open>len(s1)\<close>,
  the number of bytes of \<open>s1\<close>.\<close>

fun count_matches :: "rune list \<Rightarrow> string \<Rightarrow> nat \<Rightarrow> nat" where
  "count_matches [] s2 matches = matches"
| "count_matches (c # cs) s2 matches =
     count_matches cs s2 (if ContainsRune s2 c then matches + 1 else matches)"

definition calculateSimilarity :: "string \<Rightarrow> string \<Rightarrow> real" where
  "calculateSimilarity s1 s2 =
     (if s1 = [] \<or> s2 = [] then 0
      else real (count_matches (runes s1) s2 0) / real (length s1))"

definition scoreFragment :: "UnicodeTables \<Rightarrow> string \<Rightarrow> string \<Rightarrow> nat \<Rightarrow> real" where
  "scoreFragment tables queryFrag0 hostFrag0 position =
     (let queryFrag = normalizeFragment tables queryFrag0;
          hostFrag = normalizeFragment tables hostFrag0
      in if queryFrag = [] \<or> hostFrag = [] then 0
         else if queryFrag = hostFrag then ScoreExactMatch + calculatePositionBonus position
         else if HasPrefix hostFrag queryFrag then
           ScorePrefixMatch + calculatePositionBonus position
         else if Contains hostFrag queryFrag then
           (let index = Index hostFrag queryFrag;
                substringBonus =
                  ScorePositionBonus * (1 - real_of_int index / real (length hostFrag))
            in ScoreSubstringMatch + substringBonus)
         else
           (let similarity = calculateSimilarity queryFrag hostFrag
            in if similarity > 1 / 2 then ScoreFuzzyMatch * similarity else 0))"

text \<open>The accumulating loop \<open>for _, qFrag := range frags { totalScore += score }\<close>
  against one host fragment at position 0.\<close>

fun sum_fragment_scores :: "UnicodeTables \<Rightarrow> string list \<Rightarrow> string \<Rightarrow> real \<Rightarrow> real" where
  "sum_fragment_scores tables [] topLevel totalScore = totalScore"
| "sum_fragment_scores tables (qFrag # rest) topLevel totalScore =
     sum_fragment_scores tables rest topLevel (totalScore + scoreFragment tables qFrag topLevel 0)"

definition scoreTopLevelOnly :: "UnicodeTables \<Rightarrow> string list \<Rightarrow> string list \<Rightarrow> real" where
  "scoreTopLevelOnly tables queryFragments hostFragments =
     (case hostFragments of
        [] \<Rightarrow> 0
      | topLevel # _ \<Rightarrow>
          if queryFragments = [] then 0
          else if length queryFragments = 1 \<and> hd queryFragments = topLevel then
            ScoreExactMatch + ScoreExactHostnameBonus
          else
            (let totalScore = sum_fragment_scores tables queryFragments topLevel 0
             in if totalScore > 0 \<and> length topLevel < 10 then totalScore + ScoreLengthBonus
                else totalScore))"

text \<open>The inner loop of \<open>scoreWithSubdomains\<close>: the best score of one query fragment
  over the hostname's labels after the first, \<open>i\<close> being the label's index.\<close>

fun best_score :: "UnicodeTables \<Rightarrow> string \<Rightarrow> string list \<Rightarrow> nat \<Rightarrow> real \<Rightarrow> real" where
  "best_score tables qFrag [] i bestScore = bestScore"
| "best_score tables qFrag (hFrag # rest) i bestScore =
     (let score = scoreFragment tables qFrag hFrag i
      in best_score tables qFrag rest (i + 1) (if score > bestScore then score else bestScore))"

fun sum_subdomain_scores :: "UnicodeTables \<Rightarrow> string list \<Rightarrow> string list \<Rightarrow> real \<Rightarrow> real" where
  "sum_subdomain_scores tables [] subdomains subdomainScore = subdomainScore"
| "sum_subdomain_scores tables (qFrag # rest) subdomains subdomainScore =
     sum_subdomain_scores tables rest subdomains (subdomainScore + best_score tables qFrag subdomains 0 0)"

definition scoreWithSubdomains :: "UnicodeTables \<Rightarrow> Query \<Rightarrow> string list \<Rightarrow> real" where
  "scoreWithSubdomains tables query hostFragments =
     (if Fragments query = [] \<or> hostFragments = [] then 0
      else if SubdomainFragments query = [] then 0
      else if length hostFragments < 2 then 0
      else
        (let totalScore =
               (if TopLevelFragments query \<noteq> [] then
                  sum_fragment_scores tables (TopLevelFragments query) (hd hostFragments) 0
                else 0);
             subdomains = tl hostFragments;
             subdomainScore = sum_subdomain_scores tables (SubdomainFragments query) subdomains 0
         in if subdomainScore = 0 then 0 else totalScore + subdomainScore))"

text \<open>\<open>Score\<close>; the source's nil checks have no counterpart, a query and a service
  of the model are never nil.\<close>

definition Score :: "UnicodeTables \<Rightarrow> Query \<Rightarrow> Service \<Rightarrow> real" where
  "Score tables query service =
     (let hostname = ToLower (Hostname service);
          hostFragments = HostnameFragments hostname
      in if \<not> HasDot query then scoreTopLevelOnly tables (Fragments query) hostFragments
         else scoreWithSubdomains tables query hostFragments)"

section \<open>The specification's reading of the parser\<close>




section \<open>Example data\<close>

text \<open>A service as \<open>MapServices\<close> builds it from a hostname, with a given counter.\<close>

definition example_service :: "string \<Rightarrow> int \<Rightarrow> Service" where
  "example_service h c = \<lparr>ID = h, Hostname = h, Name = takeWhile (\<lambda>c. c \<noteq> CHR ''.'') h,
     Sources = [''homepage''], LastSeenAt = 0, Counter = c, CreatedAt = 0, UpdatedAt = 0,
     LastUsedAt = 0, Disabled = False\<rparr>"

section \<open>The specification's reading of the fuzzy similarity\<close>

text \<open>The fraction of the characters of \<open>q\<close> (its runes, counted with their
  multiplicity) that occur somewhere in \<open>h\<close>.\<close>

definition character_fraction :: "string \<Rightarrow> string \<Rightarrow> real" where
  "character_fraction q h =
     real (length (filter (\<lambda>r. r \<in> set (runes h)) (runes q))) / real (length (runes q))"

section \<open>Ranking (internal/domain/scoring.go)\<close>

definition usage_score :: "Service \<Rightarrow> real" where
  "usage_score service =
     (if Counter service > 0
      then log 10 (real_of_int (Counter service) + 1) * ScoreUsageWeight * 100
      else 0)"

text \<open>The first loop of \<open>RankCandidates\<close>: the candidates in the order of the
  services, the disabled services and those of lexical score 0 skipped.\<close>

fun collect_candidates :: "UnicodeTables \<Rightarrow> Query \<Rightarrow> Service list \<Rightarrow> Candidate list" where
  "collect_candidates tables query [] = []"
| "collect_candidates tables query (service # rest) =
     (if Disabled service then collect_candidates tables query rest
      else
        (let lexicalScore = Score tables query service
         in if lexicalScore = 0 then collect_candidates tables query rest
            else
              (let usageScore = usage_score service;
                   totalScore = lexicalScore + usageScore
               in \<lparr>Service = service, LexicalScore = lexicalScore,
                    UsageScore = usageScore, TotalScore = totalScore\<rparr>
                  # collect_candidates tables query rest)))"

text \<open>
  \<open>sortCandidates\<close> and \<open>sortBookmarkCandidates\<close> are the same bubble sort on a
  slice, on the field \<open>TotalScore\<close> and on the field \<open>Score\<close>; the model has the
  loops once, with the field as the parameter \<open>score\<close>.
  \<open>sort_inner score candidates hi j\<close> is the loop \<open>for j < n-i-1\<close> from \<open>j\<close> on,
  with \<open>hi = n-i-1\<close>; it reads the indices \<open>j\<close> and \<open>j+1 \<le> hi < n\<close> only.
  \<open>sort_outer score candidates n i\<close> is the loop \<open>for i < n-1\<close> from \<open>i\<close> on.
\<close>

function sort_inner :: "('a \<Rightarrow> real) \<Rightarrow> 'a list \<Rightarrow> nat \<Rightarrow> nat \<Rightarrow> 'a list" where
  "sort_inner score candidates hi j =
     (if j < hi then
        sort_inner score
          (if score (candidates ! j) < score (candidates ! (j + 1))
           then candidates[j := candidates ! (j + 1), j + 1 := candidates ! j]
           else candidates)
          hi (j + 1)
      else candidates)"
  by pat_completeness auto
termination
  by (relation "measure (\<lambda>(score, candidates, hi, j). hi - j)") auto

function sort_outer :: "('a \<Rightarrow> real) \<Rightarrow> 'a list \<Rightarrow> nat \<Rightarrow> nat \<Rightarrow> 'a list" where
  "sort_outer score candidates n i =
     (if i + 1 < n then sort_outer score (sort_inner score candidates (n - i - 1) 0) n (i + 1)
      else candidates)"
  by pat_completeness auto
termination
  by (relation "measure (\<lambda>(score, candidates, n, i). n - i)") auto

definition sortCandidates :: "Candidate list \<Rightarrow> Candidate list" where
  "sortCandidates candidates = sort_outer TotalScore candidates (length candidates) 0"

definition RankCandidates :: "UnicodeTables \<Rightarrow> Query \<Rightarrow> Service list \<Rightarrow> Candidate list" where
  "RankCandidates tables query services = sortCandidates (collect_candidates tables query services)"

text \<open>One pass of adjacent exchanges over a whole list, used to describe what
  \<open>sort_inner\<close> computes.\<close>

fun bubble :: "('a \<Rightarrow> real) \<Rightarrow> 'a list \<Rightarrow> 'a list" where
  "bubble score [] = []"
| "bubble score [x] = [x]"
| "bubble score (x # y # zs) =
     (if score x < score y then y # bubble score (x # zs) else x # bubble score (y # zs))"

text \<open>The candidate that \<open>RankCandidates\<close> builds for a service.\<close>

definition candidate_of :: "UnicodeTables \<Rightarrow> Query \<Rightarrow> Service \<Rightarrow> Candidate" where
  "candidate_of tables query service =
     \<lparr>Service = service, LexicalScore = Score tables query service,
      UsageScore = usage_score service,
      TotalScore = Score tables query service + usage_score service\<rparr>"

definition ranked :: "UnicodeTables \<Rightarrow> Service \<Rightarrow> Query \<Rightarrow> bool" where
  "ranked tables service query = (\<not> Disabled service \<and> Score tables query service \<noteq> 0)"

text \<open>A list of candidates in non-increasing order of their total scores.\<close>

definition descending_by :: "('a \<Rightarrow> real) \<Rightarrow> 'a list \<Rightarrow> bool" where
  "descending_by score cs = sorted_wrt (\<lambda>a b. score a \<ge> score b) cs"

definition descending :: "Candidate list \<Rightarrow> bool" where
  "descending cs = descending_by TotalScore cs"

section \<open>Source loader (internal/sources/homepage)\<close>

text \<open>
  \<open>stripTemplateVariables\<close> is \<open>ReplaceAll\<close> of the compiled pattern
  \<^verbatim>\<open>\{\{[^}]+\}\}\<close> on the data.
  The pattern has one way to match at a position: two opening braces, the longest run of
  bytes other than a closing brace, which must not be empty, and two closing braces.
  \<open>match_placeholder s\<close> is what follows the match when one starts at the head of
  \<open>s\<close>. \<open>ReplaceAll\<close> replaces the leftmost matches, one after the other, and copies
  the bytes between them.
\<close>

definition match_placeholder :: "string \<Rightarrow> string option" where
  "match_placeholder s =
     (case s of
        c1 # c2 # rest \<Rightarrow>
          if c1 = CHR ''{'' \<and> c2 = CHR ''{'' then
            (let body = takeWhile (\<lambda>c. c \<noteq> CHR ''}'') rest;
                 after = dropWhile (\<lambda>c. c \<noteq> CHR ''}'') rest
             in if body \<noteq> [] \<and> take 2 after = ''}}'' then Some (drop 2 after) else None)
          else None
      | _ \<Rightarrow> None)"

lemma match_placeholder_shorter:
  "match_placeholder s = Some r \<Longrightarrow> length r < length s"
proof -
  assume m: "match_placeholder s = Some r"
  then obtain c1 c2 rest where s: "s = c1 # c2 # rest"
    by (cases s rule: list.exhaust [case_product list.exhaust])
       (auto simp: match_placeholder_def split: list.splits)
  have "r = drop 2 (dropWhile (\<lambda>c. c \<noteq> CHR ''}'') rest)"
    using m unfolding s match_placeholder_def by (simp add: Let_def split: if_splits)
  moreover have "length (dropWhile (\<lambda>c. c \<noteq> CHR ''}'') rest) \<le> length rest"
    by (rule length_dropWhile_le)
  ultimately show ?thesis using s by simp
qed

function ReplaceAll :: "string \<Rightarrow> string \<Rightarrow> string" where
  "ReplaceAll [] repl = []"
| "ReplaceAll (c # cs) repl =
     (case match_placeholder (c # cs) of
        Some rest \<Rightarrow> repl @ ReplaceAll rest repl
      | None \<Rightarrow> c # ReplaceAll cs repl)"
  by pat_completeness auto
termination
  by (relation "measure (\<lambda>(s, repl). length s)")
     (auto dest: match_placeholder_shorter)

text \<open>The replacement is the two-byte text of an empty YAML string, two double
  quotes.\<close>

definition stripTemplateVariables :: "string \<Rightarrow> string" where
  "stripTemplateVariables data = ReplaceAll data [CHR 0x22, CHR 0x22]"

text \<open>
  \<open>Loader.Load\<close> and \<open>BookmarkLoader.Load\<close>: the result of reading the file, the
  stripping, then the YAML parser, which is a parameter.
\<close>

datatype load_error = ReadFailed | ParseFailed

definition Load :: "string option \<Rightarrow> (string \<Rightarrow> 'cfg option) \<Rightarrow> load_error + 'cfg" where
  "Load file unmarshal =
     (case file of
        None \<Rightarrow> Inl ReadFailed
      | Some data0 \<Rightarrow>
          (let data = stripTemplateVariables data0
           in case unmarshal data of None \<Rightarrow> Inl ParseFailed | Some config \<Rightarrow> Inr config))"

text \<open>
  The specification's reading: a placeholder is a text of the pattern's language, and
  every placeholder is replaced by the empty string.
\<close>

definition is_placeholder :: "string \<Rightarrow> bool" where
  "is_placeholder p =
     (\<exists>body. p = ''{{'' @ body @ ''}}'' \<and> body \<noteq> [] \<and> CHR ''}'' \<notin> set body)"

definition spec_stripTemplateVariables :: "string \<Rightarrow> string" where
  "spec_stripTemplateVariables data = ReplaceAll data []"

section \<open>Bookmark scoring (internal/domain/bookmark_scoring.go)\<close>

text \<open>The field \<open>Score\<close> of a \<open>BookmarkCandidate\<close> is \<open>CandidateScore\<close> here, the
  name \<open>Score\<close> being the scoring function's.\<close>

record BookmarkCandidate =
  Bookmark :: Bookmark
  CandidateScore :: real

text \<open>\<open>strings.Fields\<close>: the pieces between runs of white space.\<close>

fun split_spaces :: "string \<Rightarrow> string list" where
  "split_spaces [] = [[]]"
| "split_spaces (c # cs) =
     (if isSpace c then [] # split_spaces cs
      else (case split_spaces cs of [] \<Rightarrow> [[c]] | t # ts \<Rightarrow> (c # t) # ts))"

definition Fields :: "string \<Rightarrow> string list" where
  "Fields s = filter (\<lambda>t. t \<noteq> []) (split_spaces s)"

definition ScoreBookmark :: "string \<Rightarrow> Bookmark \<Rightarrow> real" where
  "ScoreBookmark queryStr0 bookmark =
     (if queryStr0 = [] then 0
      else
        (let queryStr = ToLower (TrimSpace queryStr0);
             abbr = ToLower (Abbr bookmark)
         in if queryStr = abbr then ScoreExactMatch + ScoreExactHostnameBonus
            else if HasPrefix abbr queryStr then ScorePrefixMatch
            else if Contains abbr queryStr then
              (let index = Index abbr queryStr;
                   substringBonus =
                     ScorePositionBonus * (1 - real_of_int index / real (length abbr))
               in ScoreSubstringMatch + substringBonus)
            else
              (let queryWords = Fields queryStr
               in if length queryWords > 1 \<and> list_all (\<lambda>word. Contains abbr word) queryWords
                  then ScoreFuzzyMatch
                  else
                    (let similarity = calculateSimilarity queryStr abbr
                     in if similarity > 1 / 2 then ScoreFuzzyMatch * similarity else 0))))"

fun collect_bookmark_candidates :: "string \<Rightarrow> Bookmark list \<Rightarrow> BookmarkCandidate list" where
  "collect_bookmark_candidates queryStr [] = []"
| "collect_bookmark_candidates queryStr (bookmark # rest) =
     (if Bookmark.Disabled bookmark then collect_bookmark_candidates queryStr rest
      else
        (let score = ScoreBookmark queryStr bookmark
         in if score = 0 then collect_bookmark_candidates queryStr rest
            else \<lparr>Bookmark = bookmark, CandidateScore = score\<rparr>
                 # collect_bookmark_candidates queryStr rest))"

definition sortBookmarkCandidates :: "BookmarkCandidate list \<Rightarrow> BookmarkCandidate list" where
  "sortBookmarkCandidates candidates =
     sort_outer CandidateScore candidates (length candidates) 0"

definition RankBookmarkCandidates :: "string \<Rightarrow> Bookmark list \<Rightarrow> BookmarkCandidate list" where
  "RankBookmarkCandidates queryStr bookmarks =
     sortBookmarkCandidates (collect_bookmark_candidates queryStr bookmarks)"

section \<open>Memory index (internal/index/memory.go)\<close>

text \<open>
  The two Go maps are maps of the model. Go leaves the order of a \<open>range\<close> over a map
  open; \<open>GetAllServices\<close> and \<open>GetAllBookmarks\<close> take the order of the keys as a
  parameter. The entries of the Go maps are pointers; no function of the model reads an
  entry through two paths after a write, so the model holds the values.
\<close>

record MemoryIndex =
  services :: "string \<rightharpoonup> Service"
  bookmarks :: "string \<rightharpoonup> Bookmark"
  lastReload :: Time
  lastBookmarkReload :: Time

definition NewMemoryIndex :: MemoryIndex where
  "NewMemoryIndex = \<lparr>services = Map.empty, bookmarks = Map.empty,
     lastReload = 0, lastBookmarkReload = 0\<rparr>"

fun build_services :: "Service list \<Rightarrow> (string \<rightharpoonup> Service) \<Rightarrow> (string \<rightharpoonup> Service)" where
  "build_services [] m = m"
| "build_services (service # rest) m = build_services rest (m(ID service \<mapsto> service))"

definition UpdateServices :: "MemoryIndex \<Rightarrow> Service list \<Rightarrow> Time \<Rightarrow> MemoryIndex" where
  "UpdateServices idx svcs t =
     idx\<lparr>services := build_services svcs Map.empty, lastReload := t\<rparr>"

definition GetAllServices :: "MemoryIndex \<Rightarrow> string list \<Rightarrow> Service list" where
  "GetAllServices idx order = List.map_filter (services idx) order"

definition DeleteService :: "MemoryIndex \<Rightarrow> string \<Rightarrow> MemoryIndex" where
  "DeleteService idx key = idx\<lparr>services := (services idx)(key := None)\<rparr>"

text \<open>\<open>Counter++\<close> on an int64.\<close>

definition inc64 :: "int \<Rightarrow> int" where
  "inc64 c = (if c = 2 ^ 63 - 1 then - (2 ^ 63) else c + 1)"

definition IncrementCounter :: "MemoryIndex \<Rightarrow> string \<Rightarrow> MemoryIndex" where
  "IncrementCounter idx key =
     (case services idx key of
        Some service \<Rightarrow>
          idx\<lparr>services := (services idx)(key \<mapsto> service\<lparr>Counter := inc64 (Counter service)\<rparr>)\<rparr>
      | None \<Rightarrow> idx)"

fun build_bookmarks :: "Bookmark list \<Rightarrow> (string \<rightharpoonup> Bookmark) \<Rightarrow> (string \<rightharpoonup> Bookmark)" where
  "build_bookmarks [] m = m"
| "build_bookmarks (bookmark # rest) m =
     build_bookmarks rest (m(Bookmark.ID bookmark \<mapsto> bookmark))"

definition UpdateBookmarks :: "MemoryIndex \<Rightarrow> Bookmark list \<Rightarrow> Time \<Rightarrow> MemoryIndex" where
  "UpdateBookmarks idx bms t =
     idx\<lparr>bookmarks := build_bookmarks bms Map.empty, lastBookmarkReload := t\<rparr>"

definition GetAllBookmarks :: "MemoryIndex \<Rightarrow> string list \<Rightarrow> Bookmark list" where
  "GetAllBookmarks idx order = List.map_filter (bookmarks idx) order"

definition DeleteBookmark :: "MemoryIndex \<Rightarrow> string \<Rightarrow> MemoryIndex" where
  "DeleteBookmark idx key = idx\<lparr>bookmarks := (bookmarks idx)(key := None)\<rparr>"

section \<open>Cache store (internal/store/redis)\<close>

text \<open>
  The Redis store holds the cached resolutions (\<open>jump:cache:<query>\<close>), the saved
  entries (\<open>jump:service:<id>\<close>, \<open>jump:bookmark:<id>\<close>) and the two sets of ids. An
  operation takes a flag \<open>ok\<close>: whether Redis answers it; a failed operation returns an
  error and leaves the store as it was. The expiry of keys is not modelled.
\<close>

record Store =
  resolutions :: "string \<rightharpoonup> string"
  saved_services :: "string \<rightharpoonup> Service"
  saved_bookmarks :: "string \<rightharpoonup> Bookmark"
  all_services :: "string set"
  all_bookmarks :: "string set"

datatype store_error = RedisFailed | NotFound

definition CacheResolution :: "Store \<Rightarrow> bool \<Rightarrow> string \<Rightarrow> string \<Rightarrow> store_error option \<times> Store" where
  "CacheResolution st ok query hostname =
     (if ok then (None, st\<lparr>resolutions := (resolutions st)(query \<mapsto> hostname)\<rparr>)
      else (Some RedisFailed, st))"

definition GetCachedResolution :: "Store \<Rightarrow> bool \<Rightarrow> string \<Rightarrow> store_error + string" where
  "GetCachedResolution st ok query =
     (if ok then (case resolutions st query of None \<Rightarrow> Inr [] | Some hostname \<Rightarrow> Inr hostname)
      else Inl RedisFailed)"

definition InvalidateCache :: "Store \<Rightarrow> bool \<Rightarrow> string \<Rightarrow> store_error option \<times> Store" where
  "InvalidateCache st ok query =
     (if ok then (None, st\<lparr>resolutions := (resolutions st)(query := None)\<rparr>)
      else (Some RedisFailed, st))"

definition SaveService :: "Store \<Rightarrow> Service \<Rightarrow> Store" where
  "SaveService st service =
     st\<lparr>saved_services := (saved_services st)(ID service \<mapsto> service),
        all_services := insert (ID service) (all_services st)\<rparr>"

definition UpdateServiceCounter :: "Store \<Rightarrow> bool \<Rightarrow> Time \<Rightarrow> string \<Rightarrow> store_error option \<times> Store" where
  "UpdateServiceCounter st ok t key =
     (if \<not> ok then (Some RedisFailed, st)
      else
        (case saved_services st key of
           None \<Rightarrow> (Some NotFound, st)
         | Some service \<Rightarrow>
             (None, SaveService st
                (service\<lparr>Counter := inc64 (Counter service), LastSeenAt := t\<rparr>))))"

definition IncrementUsage :: "Store \<Rightarrow> bool \<Rightarrow> Time \<Rightarrow> string \<Rightarrow> store_error option \<times> Store" where
  "IncrementUsage st ok t serviceID = UpdateServiceCounter st ok t serviceID"

fun save_services :: "Service list \<Rightarrow> Store \<Rightarrow> Store" where
  "save_services [] st = st"
| "save_services (service # rest) st = save_services rest (SaveService st service)"

definition SaveServicesMany :: "Store \<Rightarrow> bool \<Rightarrow> Service list \<Rightarrow> store_error option \<times> Store" where
  "SaveServicesMany st ok svcs =
     (if ok then (None, save_services svcs st) else (Some RedisFailed, st))"

text \<open>\<open>Store.DeleteService\<close> and \<open>Store.DeleteBookmark\<close>, named apart from the
  index's functions.\<close>

definition Store_DeleteService :: "Store \<Rightarrow> bool \<Rightarrow> string \<Rightarrow> store_error option \<times> Store" where
  "Store_DeleteService st ok key =
     (if ok then
        (None, st\<lparr>saved_services := (saved_services st)(key := None),
                  all_services := all_services st - {key}\<rparr>)
      else (Some RedisFailed, st))"

definition Store_DeleteBookmark :: "Store \<Rightarrow> bool \<Rightarrow> string \<Rightarrow> store_error option \<times> Store" where
  "Store_DeleteBookmark st ok key =
     (if ok then
        (None, st\<lparr>saved_bookmarks := (saved_bookmarks st)(key := None),
                  all_bookmarks := all_bookmarks st - {key}\<rparr>)
      else (Some RedisFailed, st))"

section \<open>Resolver (internal/httpserver/handlers/search.go)\<close>

text \<open>
  The configuration of the handler, the request, and what the handler cannot decide by
  itself: whether each Redis operation of the request succeeds, whether the TLS probe
  of the cached hostname and of the \<open>i\<close>-th candidate succeeds, the clock, and the
  order in which the index's maps are iterated.
\<close>

record Deps =
  HomepageURL :: string
  AllowedDomains :: "string list"
  MaxCandidates :: int
  SkipTLSValidation :: bool

record Request =
  query_param :: string
  Host :: string

record Env =
  get_ok :: bool
  incr_ok :: bool
  invalidate_ok :: bool
  cache_ok :: bool
  cached_probe :: "string \<Rightarrow> bool"
  candidate_probe :: "nat \<Rightarrow> string \<Rightarrow> bool"
  clock :: Time
  service_order :: "string list"
  bookmark_order :: "string list"

record World =
  memIndex :: MemoryIndex
  redis :: Store

text \<open>\<open>http.Redirect(w, r, url, http.StatusFound)\<close>: the response is the status 302
  and the \<open>Location\<close> header; its value is taken to be the \<open>url\<close> the handler
  passes.\<close>

record Response =
  status_code :: nat
  location :: string

definition Redirect :: "string \<Rightarrow> Response" where
  "Redirect url = \<lparr>status_code = 302, location = url\<rparr>"

definition HasSuffix :: "string \<Rightarrow> string \<Rightarrow> bool" where
  "HasSuffix s suffix = HasPrefix (rev s) (rev suffix)"

definition TrimPrefix :: "string \<Rightarrow> string \<Rightarrow> string" where
  "TrimPrefix s prefix = (if HasPrefix s prefix then drop (length prefix) s else s)"

fun allowed_loop :: "string \<Rightarrow> string list \<Rightarrow> bool" where
  "allowed_loop hostname [] = False"
| "allowed_loop hostname (domain0 # rest) =
     (let domain = ToLower domain0
      in if hostname = domain then True
         else if HasSuffix hostname (CHR ''.'' # domain) then True
         else allowed_loop hostname rest)"

definition isAllowedRedirect :: "string \<Rightarrow> string list \<Rightarrow> bool" where
  "isAllowedRedirect hostname allowedDomains = allowed_loop (ToLower hostname) allowedDomains"

definition internal_endpoints :: "string list" where
  "internal_endpoints = [''/infra'', ''/healthz'', ''/readyz'']"

definition matchInternalEndpoint :: "string \<Rightarrow> string" where
  "matchInternalEndpoint query0 =
     (let query = ToLower query0;
          matches = filter (\<lambda>endpoint. HasPrefix endpoint query) internal_endpoints
      in if length matches = 1 then hd matches else [])"

definition handleInternalEndpoint :: "Deps \<Rightarrow> Request \<Rightarrow> string \<Rightarrow> Response" where
  "handleInternalEndpoint d r query =
     (let endpoint = matchInternalEndpoint query
      in if endpoint \<noteq> [] then Redirect (''https://'' @ Host r @ endpoint)
         else Redirect (HomepageURL d))"

text \<open>\<open>handleCachedService\<close> returns the response when it handled the request.\<close>

definition handleCachedService ::
    "Deps \<Rightarrow> Env \<Rightarrow> string \<Rightarrow> World \<Rightarrow> Response option \<times> World" where
  "handleCachedService d env query w =
     (case GetCachedResolution (redis w) (get_ok env) query of
        Inl err \<Rightarrow> (None, w)
      | Inr cachedHostname \<Rightarrow>
          if cachedHostname = [] then (None, w)
          else if cached_probe env cachedHostname then
            (let st = snd (IncrementUsage (redis w) (incr_ok env) (clock env) cachedHostname);
                 idx = IncrementCounter (memIndex w) cachedHostname;
                 w' = \<lparr>memIndex = idx, redis = st\<rparr>;
                 redirectURL = ''https://'' @ cachedHostname
             in if \<not> isAllowedRedirect cachedHostname (AllowedDomains d)
                then (Some (Redirect (HomepageURL d)), w')
                else (Some (Redirect redirectURL), w'))
          else
            (let st = snd (InvalidateCache (redis w) (invalidate_ok env) query)
             in (None, w\<lparr>redis := st\<rparr>)))"

text \<open>The loop of \<open>handleServiceSearch\<close> over the candidates in rank order: the first
  candidate that is allowed and, unless TLS validation is skipped, passes its probe.\<close>

fun first_healthy :: "Deps \<Rightarrow> Env \<Rightarrow> nat \<Rightarrow> Candidate list \<Rightarrow> Candidate option" where
  "first_healthy d env i [] = None"
| "first_healthy d env i (candidate # rest) =
     (let hostname = Hostname (Service candidate)
      in if \<not> isAllowedRedirect hostname (AllowedDomains d) then first_healthy d env (i + 1) rest
         else if \<not> SkipTLSValidation d \<and> \<not> candidate_probe env i hostname
           then first_healthy d env (i + 1) rest
         else Some candidate)"

definition handleServiceSearch :: "UnicodeTables \<Rightarrow> Deps \<Rightarrow> Env \<Rightarrow> string \<Rightarrow> World \<Rightarrow> Response \<times> World" where
  "handleServiceSearch tables d env query w =
     (let parsedQuery = ParseQuery query;
          svcs = GetAllServices (memIndex w) (service_order env)
      in if svcs = [] then (Redirect (HomepageURL d), w)
         else
           (let candidates0 = RankCandidates tables parsedQuery svcs
            in if candidates0 = [] then (Redirect (HomepageURL d), w)
               else
                 (let candidates =
                        (if MaxCandidates d > 0 \<and> int (length candidates0) > MaxCandidates d
                         then take (nat (MaxCandidates d)) candidates0 else candidates0)
                  in case first_healthy d env 0 candidates of
                       None \<Rightarrow> (Redirect (HomepageURL d), w)
                     | Some candidate \<Rightarrow>
                         (let hostname = Hostname (Service candidate);
                              st1 = snd (IncrementUsage (redis w) (incr_ok env) (clock env) hostname);
                              idx = IncrementCounter (memIndex w) hostname;
                              st2 = snd (CacheResolution st1 (cache_ok env) query hostname);
                              redirectURL = ''https://'' @ hostname
                          in (Redirect redirectURL, \<lparr>memIndex = idx, redis = st2\<rparr>)))))"

definition handleBookmarkSearch :: "Deps \<Rightarrow> Env \<Rightarrow> string \<Rightarrow> World \<Rightarrow> Response" where
  "handleBookmarkSearch d env query w =
     (let queryStr = TrimSpace (TrimPrefix query ''@'')
      in if queryStr = [] then Redirect (HomepageURL d)
         else
           (let bms = GetAllBookmarks (memIndex w) (bookmark_order env)
            in if bms = [] then Redirect (HomepageURL d)
               else
                 (case RankBookmarkCandidates queryStr bms of
                    [] \<Rightarrow> Redirect (HomepageURL d)
                  | best # _ \<Rightarrow> Redirect (URL (Bookmark best)))))"

definition Search :: "UnicodeTables \<Rightarrow> Deps \<Rightarrow> Env \<Rightarrow> Request \<Rightarrow> World \<Rightarrow> Response \<times> World" where
  "Search tables d env r w =
     (let query = TrimSpace (query_param r)
      in if query = [] then (Redirect (HomepageURL d), w)
         else if HasPrefix query ''@'' then (handleBookmarkSearch d env query w, w)
         else if HasPrefix query ''/'' then (handleInternalEndpoint d r query, w)
         else
           (case handleCachedService d env query w of
              (Some response, w') \<Rightarrow> (response, w')
            | (None, w') \<Rightarrow> handleServiceSearch tables d env query w'))"

text \<open>
  The specification's reading of a redirect target: the host of a URL is the text
  between \<open>://\<close> and the next slash, colon, question mark or hash, and a target is
  acceptable when it is the home URL or its host is allowed.
\<close>

fun after_scheme :: "string \<Rightarrow> string" where
  "after_scheme (a # b # c # rest) =
     (if a = CHR '':'' \<and> b = CHR ''/'' \<and> c = CHR ''/'' then rest
      else after_scheme (b # c # rest))"
| "after_scheme s = []"

definition url_host :: "string \<Rightarrow> string" where
  "url_host url = takeWhile (\<lambda>c. c \<notin> set ''/:?#'') (after_scheme url)"

definition home_or_allowed :: "Deps \<Rightarrow> string \<Rightarrow> bool" where
  "home_or_allowed d loc =
     (loc = HomepageURL d \<or> isAllowedRedirect (url_host loc) (AllowedDomains d))"

section \<open>Example configuration\<close>

definition example_deps :: Deps where
  "example_deps = \<lparr>HomepageURL = ''https://home.example.com'',
     AllowedDomains = [''example.com''], MaxCandidates = 0, SkipTLSValidation = False\<rparr>"

definition example_env :: Env where
  "example_env = \<lparr>get_ok = True, incr_ok = True, invalidate_ok = True, cache_ok = True,
     cached_probe = (\<lambda>h. True), candidate_probe = (\<lambda>i h. True), clock = 1000,
     service_order = [''evil.other.org''], bookmark_order = [''0123456789abcdef'']\<rparr>"

definition example_bookmark :: Bookmark where
  "example_bookmark = \<lparr>Bookmark.ID = ''0123456789abcdef'', Abbr = ''ChatGPT'',
     URL = ''https://chat.openai.com/'', Bookmark.Sources = [''homepage''],
     Bookmark.CreatedAt = 1, Bookmark.UpdatedAt = 1, Bookmark.Disabled = False\<rparr>"

definition empty_store :: Store where
  "empty_store = \<lparr>resolutions = Map.empty, saved_services = Map.empty,
     saved_bookmarks = Map.empty, all_services = {}, all_bookmarks = {}\<rparr>"

definition example_world :: World where
  "example_world =
     \<lparr>memIndex = NewMemoryIndex
        \<lparr>services := [''evil.other.org'' \<mapsto> example_service ''evil.other.org'' 5],
         bookmarks := [''0123456789abcdef'' \<mapsto> example_bookmark]\<rparr>,
      redis = empty_store
        \<lparr>resolutions := [''evil'' \<mapsto> ''evil.other.org''],
         saved_services := [''evil.other.org'' \<mapsto> example_service ''evil.other.org'' 5],
         all_services := {''evil.other.org''}\<rparr>\<rparr>"

section \<open>Mapper (internal/sources/homepage/mapper.go)\<close>

text \<open>
  A \<open>ServicesConfig\<close> is a list of maps from group names to lists of maps from service
  names to properties; each map is given as the list of its entries in the order of
  the iteration. Of the properties only \<open>Href\<close> is read. The parameter
  \<open>url_hostname\<close> stands for \<open>url.Parse\<close> followed by \<open>Hostname()\<close>, with \<open>None\<close> for a
  parse error.
\<close>

record ServiceProps =
  Href :: string

type_synonym ServicesConfig = "(string \<times> (string \<times> ServiceProps) list list) list list"

datatype reload_error = LoadError load_error | NoValidServices

definition extractServiceName :: "string \<Rightarrow> string" where
  "extractServiceName hostname =
     (case Split (CHR ''.'') hostname of [] \<Rightarrow> hostname | part # _ \<Rightarrow> part)"

definition map_service :: "(string \<Rightarrow> string option) \<Rightarrow> Time \<Rightarrow> ServiceProps \<Rightarrow> Service list" where
  "map_service url_hostname t props =
     (if Href props = [] then []
      else
        (case url_hostname (Href props) of
           None \<Rightarrow> []
         | Some hostname \<Rightarrow>
             if hostname = [] then []
             else [\<lparr>ID = hostname, Hostname = hostname, Name = extractServiceName hostname,
                    Sources = [''homepage''], LastSeenAt = t, Counter = 0, CreatedAt = 0,
                    UpdatedAt = 0, LastUsedAt = 0, Disabled = False\<rparr>]))"

definition MapServices ::
    "(string \<Rightarrow> string option) \<Rightarrow> Time \<Rightarrow> ServicesConfig \<Rightarrow> reload_error + Service list" where
  "MapServices url_hostname t config =
     (let svcs =
        concat (map (\<lambda>groupMap.
          concat (map (\<lambda>(groupName, servicesList).
            concat (map (\<lambda>serviceMap.
              concat (map (\<lambda>(serviceName, props). map_service url_hostname t props)
                serviceMap))
              servicesList))
            groupMap))
          config)
      in if svcs = [] then Inl NoValidServices else Inr svcs)"

section \<open>Reconciler (internal/scheduler)\<close>

definition getHomepageServices :: "MemoryIndex \<Rightarrow> string list \<Rightarrow> Service list" where
  "getHomepageServices idx order =
     filter (\<lambda>svc. ''homepage'' \<in> set (Sources svc)) (GetAllServices idx order)"

text \<open>The loop of \<open>Reload\<close> over the existing services: those whose id is not among
  the new ids are marked disabled, with \<open>UpdatedAt\<close> set to the time of the pass.\<close>

fun mark_removed :: "Service list \<Rightarrow> string set \<Rightarrow> Time \<Rightarrow> Service list" where
  "mark_removed [] newServiceIDs t = []"
| "mark_removed (existing # rest) newServiceIDs t =
     (if ID existing \<notin> newServiceIDs
      then existing\<lparr>Disabled := True, UpdatedAt := t\<rparr> # mark_removed rest newServiceIDs t
      else mark_removed rest newServiceIDs t)"

text \<open>
  \<open>HomepageReloader.Reload\<close>. \<open>loaded\<close> is the result of the loader, \<open>t\<close> the time of
  the pass, \<open>order\<close> the iteration order of the index, \<open>save_ok\<close> whether Redis takes
  the bulk write; the store is \<open>None\<close> when the reloader has none.
\<close>

definition Reload ::
    "(string \<Rightarrow> string option) \<Rightarrow> Time \<Rightarrow> string list \<Rightarrow> bool \<Rightarrow> load_error + ServicesConfig \<Rightarrow>
     MemoryIndex \<times> Store option \<Rightarrow> reload_error option \<times> MemoryIndex \<times> Store option" where
  "Reload url_hostname t order save_ok loaded state =
     (case state of (idx, store) \<Rightarrow>
        (case loaded of
           Inl err \<Rightarrow> (Some (LoadError err), idx, store)
         | Inr config \<Rightarrow>
             (case MapServices url_hostname t config of
                Inl err \<Rightarrow> (Some err, idx, store)
              | Inr newServices \<Rightarrow>
                  (let existingServices = getHomepageServices idx order;
                       newServiceIDs = set (map ID newServices);
                       disabledServices = mark_removed existingServices newServiceIDs t;
                       allServices = newServices @ disabledServices;
                       idx' = UpdateServices idx allServices t;
                       store' = (case store of
                                   None \<Rightarrow> None
                                 | Some st \<Rightarrow> Some (snd (SaveServicesMany st save_ok allServices)))
                   in (None, idx', store')))))"

text \<open>The garbage collector: \<open>threshold\<close> is the collector's threshold, \<open>t\<close> the time of
  the pass, \<open>delete_ok\<close> whether Redis takes the deletion of an id.\<close>

definition DefaultGCThreshold :: Duration where
  "DefaultGCThreshold = 30 * 24 * 3600 * 1000000000"

definition NewGarbageCollector_threshold :: "Duration \<Rightarrow> Duration" where
  "NewGarbageCollector_threshold threshold =
     (if threshold = 0 then DefaultGCThreshold else threshold)"

fun collect_services_loop ::
    "Duration \<Rightarrow> Time \<Rightarrow> (string \<Rightarrow> bool) \<Rightarrow> Service list \<Rightarrow>
     MemoryIndex \<times> Store option \<times> nat \<Rightarrow> MemoryIndex \<times> Store option \<times> nat" where
  "collect_services_loop threshold t delete_ok [] state = state"
| "collect_services_loop threshold t delete_ok (service # rest) (idx, store, deletedCount) =
     (if \<not> Disabled service then
        collect_services_loop threshold t delete_ok rest (idx, store, deletedCount)
      else if IsZero (UpdatedAt service) then
        collect_services_loop threshold t delete_ok rest (idx, store, deletedCount)
      else if Sub t (UpdatedAt service) < threshold then
        collect_services_loop threshold t delete_ok rest (idx, store, deletedCount)
      else
        collect_services_loop threshold t delete_ok rest
          (DeleteService idx (ID service),
           (case store of
              None \<Rightarrow> None
            | Some st \<Rightarrow> Some (snd (Store_DeleteService st (delete_ok (ID service)) (ID service)))),
           deletedCount + 1))"

definition collectServices ::
    "Duration \<Rightarrow> Time \<Rightarrow> (string \<Rightarrow> bool) \<Rightarrow> string list \<Rightarrow>
     MemoryIndex \<times> Store option \<Rightarrow> MemoryIndex \<times> Store option \<times> nat" where
  "collectServices threshold t delete_ok order state =
     (case state of (idx, store) \<Rightarrow>
        collect_services_loop threshold t delete_ok (GetAllServices idx order) (idx, store, 0))"

fun collect_bookmarks_loop ::
    "Duration \<Rightarrow> Time \<Rightarrow> (string \<Rightarrow> bool) \<Rightarrow> Bookmark list \<Rightarrow>
     MemoryIndex \<times> Store option \<times> nat \<Rightarrow> MemoryIndex \<times> Store option \<times> nat" where
  "collect_bookmarks_loop threshold t delete_ok [] state = state"
| "collect_bookmarks_loop threshold t delete_ok (bookmark # rest) (idx, store, deletedCount) =
     (if \<not> Bookmark.Disabled bookmark then
        collect_bookmarks_loop threshold t delete_ok rest (idx, store, deletedCount)
      else if IsZero (Bookmark.UpdatedAt bookmark) then
        collect_bookmarks_loop threshold t delete_ok rest (idx, store, deletedCount)
      else if Sub t (Bookmark.UpdatedAt bookmark) < threshold then
        collect_bookmarks_loop threshold t delete_ok rest (idx, store, deletedCount)
      else
        collect_bookmarks_loop threshold t delete_ok rest
          (DeleteBookmark idx (Bookmark.ID bookmark),
           (case store of
              None \<Rightarrow> None
            | Some st \<Rightarrow>
                Some (snd (Store_DeleteBookmark st (delete_ok (Bookmark.ID bookmark))
                  (Bookmark.ID bookmark)))),
           deletedCount + 1))"

definition collectBookmarks ::
    "Duration \<Rightarrow> Time \<Rightarrow> (string \<Rightarrow> bool) \<Rightarrow> string list \<Rightarrow>
     MemoryIndex \<times> Store option \<Rightarrow> MemoryIndex \<times> Store option \<times> nat" where
  "collectBookmarks threshold t delete_ok order state =
     (case state of (idx, store) \<Rightarrow>
        collect_bookmarks_loop threshold t delete_ok (GetAllBookmarks idx order) (idx, store, 0))"

definition Collect ::
    "Duration \<Rightarrow> Time \<Rightarrow> (string \<Rightarrow> bool) \<Rightarrow> string list \<Rightarrow> string list \<Rightarrow>
     MemoryIndex \<times> Store option \<Rightarrow> MemoryIndex \<times> Store option" where
  "Collect threshold t delete_ok order bookmark_keys state =
     (case collectServices threshold t delete_ok order state of
        (idx1, store1, servicesDeleted) \<Rightarrow>
          (case collectBookmarks threshold t delete_ok bookmark_keys (idx1, store1) of
             (idx2, store2, bookmarksDeleted) \<Rightarrow> (idx2, store2)))"

text \<open>
  The two background loops of the scheduler, as the sequence of their passes: a reload
  pass at a time, with what the loader returns then, or a collection pass at a time.
  A pass runs to its end before the next one starts.
\<close>

datatype pass = ReloadPass Time "load_error + ServicesConfig" | CollectPass Time

record Scheduler =
  parse_hostname :: "string \<Rightarrow> string option"
  gc_threshold :: Duration
  redis_ok :: bool
  service_keys :: "string list"
  bookmark_keys :: "string list"

fun run_pass :: "Scheduler \<Rightarrow> pass \<Rightarrow> MemoryIndex \<times> Store option \<Rightarrow> MemoryIndex \<times> Store option" where
  "run_pass sch (ReloadPass t loaded) state =
     snd (Reload (parse_hostname sch) t (service_keys sch) (redis_ok sch) loaded state)"
| "run_pass sch (CollectPass t) state =
     Collect (gc_threshold sch) t (\<lambda>key. redis_ok sch) (service_keys sch) (bookmark_keys sch) state"

fun run_passes :: "Scheduler \<Rightarrow> pass list \<Rightarrow> MemoryIndex \<times> Store option \<Rightarrow> MemoryIndex \<times> Store option" where
  "run_passes sch [] state = state"
| "run_passes sch (p # ps) state = run_passes sch ps (run_pass sch p state)"

section \<open>Example catalog and schedule\<close>

definition hour :: Duration where
  "hour = 3600 * 1000000000"

definition example_catalog :: ServicesConfig where
  "example_catalog =
     [[(''Infrastructure'', [[(''Kept'', \<lparr>Href = ''https://kept.example.com''\<rparr>)]])]]"

definition example_url_hostname :: "string \<Rightarrow> string option" where
  "example_url_hostname href =
     (if href = ''https://kept.example.com'' then Some ''kept.example.com'' else None)"

definition example_scheduler :: Scheduler where
  "example_scheduler = \<lparr>parse_hostname = example_url_hostname,
     gc_threshold = NewGarbageCollector_threshold 0, redis_ok = True,
     service_keys = [''kept.example.com'', ''gone.example.com''], bookmark_keys = []\<rparr>"

text \<open>The index before the entry \<open>gone.example.com\<close> leaves the catalog: both services
  are enabled, \<open>kept.example.com\<close> has been used 5 times.\<close>

definition example_index :: MemoryIndex where
  "example_index = NewMemoryIndex
     \<lparr>services := [''kept.example.com'' \<mapsto> example_service ''kept.example.com'' 5,
                   ''gone.example.com'' \<mapsto> example_service ''gone.example.com'' 0]\<rparr>"

text \<open>\<open>daily_passes t0 n\<close>: on each of \<open>n\<close> days from \<open>t0\<close> on, a reload pass that
  loads the example catalog and, one hour later, a collection pass; 24 hours are the
  default of both intervals.\<close>

fun daily_passes :: "Time \<Rightarrow> nat \<Rightarrow> pass list" where
  "daily_passes t0 0 = []"
| "daily_passes t0 (Suc n) =
     ReloadPass t0 (Inr example_catalog) # CollectPass (t0 + hour)
       # daily_passes (t0 + 24 * hour) n"
text \<open>Predicates on the index used to state the properties of the reconciler: every
  entry is stored under its own id; the entry \<open>x\<close> is present, from the homepage
  source; the entry \<open>x\<close> is soft-deleted with \<open>UpdatedAt = t\<close>.\<close>

definition keyed_by_id :: "MemoryIndex \<Rightarrow> bool" where
  "keyed_by_id idx = (\<forall>key s. services idx key = Some s \<longrightarrow> ID s = key)"

definition tracked :: "string \<Rightarrow> MemoryIndex \<Rightarrow> bool" where
  "tracked x idx =
     (case services idx x of
        None \<Rightarrow> False
      | Some s \<Rightarrow> ID s = x \<and> ''homepage'' \<in> set (Sources s))"

definition soft_deleted :: "string \<Rightarrow> Time \<Rightarrow> MemoryIndex \<Rightarrow> bool" where
  "soft_deleted x t idx =
     (case services idx x of
        None \<Rightarrow> False
      | Some s \<Rightarrow> ID s = x \<and> ''homepage'' \<in> set (Sources s) \<and> Disabled s \<and> UpdatedAt s = t)"

section \<open>Properties of the query parser\<close>

lemmas string_eval =
  ToLower_def TrimSpace_def toLowerChar_def upper_chars_def lower_chars_def
  isSpace_def Contains_chr_def splitAndClean_def Let_def

lemma Split_nonempty: "Split sep s \<noteq> []"
  by (induction s) (auto split: list.splits)






section \<open>Properties of the scorer\<close>

text \<open>The fragments of the examples are normalized already.\<close>

lemma normalize_examples:
  "normalizeFragment latin1_tables ''x'' = ''x''"
  "normalizeFragment latin1_tables ''zz'' = ''zz''"
  "normalizeFragment latin1_tables ''ha'' = ''ha''"
  "normalizeFragment latin1_tables ''example'' = ''example''"
  "normalizeFragment latin1_tables ''com'' = ''com''"
  "normalizeFragment latin1_tables ''je'' = ''je''"
  "normalizeFragment latin1_tables ''jelly'' = ''jelly''"
  "normalizeFragment latin1_tables ''fin'' = ''fin''"
  "normalizeFragment latin1_tables ''jellyfin'' = ''jellyfin''"
  "normalizeFragment latin1_tables ''jellyseerr'' = ''jellyseerr''"
  "normalizeFragment latin1_tables ''trfk'' = ''trfk''"
  "normalizeFragment latin1_tables ''traefik'' = ''traefik''"
  "normalizeFragment latin1_tables [CHR ''t'', CHR ''r'', CHR 0xC3, CHR 0xA9] =
     [CHR ''t'', CHR ''r'', CHR 0xC3, CHR 0xA9]"
  "normalizeFragment latin1_tables [CHR 0xC3, CHR 0xA9, CHR ''a''] = [CHR 0xC3, CHR 0xA9, CHR ''a'']"
  "normalizeFragment latin1_tables [CHR ''a'', CHR 0xC3, CHR 0xA9] = [CHR ''a'', CHR 0xC3, CHR 0xA9]"
  by code_simp+

lemmas score_eval =
  scoreFragment_def normalize_examples Contains_def calculateSimilarity_def
  ContainsRune_def runes_def continuation_def RuneError_def
  ScoreExactMatch_def ScorePrefixMatch_def ScoreSubstringMatch_def
  ScoreFuzzyMatch_def ScorePositionBonus_def ScoreLengthBonus_def
  ScoreExactHostnameBonus_def ScoreUsageWeight_def

lemma best_score_zero:
  "(\<And>j. j < length hs \<Longrightarrow> scoreFragment tables q (hs ! j) (i + j) = 0) \<Longrightarrow> 0 \<le> b \<Longrightarrow>
     best_score tables q hs i b = b"
proof (induction hs arbitrary: i b)
  case Nil
  show ?case by simp
next
  case (Cons h hs)
  have h0: "scoreFragment tables q h i = 0"
    using Cons.prems(1) [of 0] by simp
  have rest: "\<And>j. j < length hs \<Longrightarrow> scoreFragment tables q (hs ! j) (Suc i + j) = 0"
    using Cons.prems(1) [of "Suc j" for j] by simp
  have "best_score tables q hs (Suc i) b = b"
    using Cons.IH [of "Suc i" b] rest Cons.prems(2) by simp
  then show ?case
    using h0 Cons.prems(2) by (simp add: Let_def)
qed

lemma sum_subdomain_scores_zero:
  "(\<And>q. q \<in> set qs \<Longrightarrow> best_score tables q subs 0 0 = 0) \<Longrightarrow>
     sum_subdomain_scores tables qs subs acc = acc"
  by (induction qs arbitrary: acc) simp_all

text \<open>
  Claim C6: for a query with a dot, \<open>Score\<close> is 0 when the hostname has fewer than
  two labels, or the query has no subdomain fragments, or every subdomain fragment
  scores 0 against every label after the first (each at the index the code gives it).
\<close>

theorem Score_zero_without_subdomain_match:
  assumes dot: "HasDot query"
    and none: "length (HostnameFragments (ToLower (Hostname service))) < 2
      \<or> SubdomainFragments query = []
      \<or> (\<forall>q \<in> set (SubdomainFragments query).
           \<forall>i < length (tl (HostnameFragments (ToLower (Hostname service)))).
             scoreFragment tables q (tl (HostnameFragments (ToLower (Hostname service))) ! i) i = 0)"
  shows "Score tables query service = 0"
proof -
  let ?hf = "HostnameFragments (ToLower (Hostname service))"
  have eq: "Score tables query service = scoreWithSubdomains tables query ?hf"
    using dot by (simp add: Score_def)
  from none consider
      (short) "length ?hf < 2"
    | (nosub) "SubdomainFragments query = []"
    | (nomatch) "\<forall>q \<in> set (SubdomainFragments query). \<forall>i < length (tl ?hf).
             scoreFragment tables q (tl ?hf ! i) i = 0"
    by blast
  then have "scoreWithSubdomains tables query ?hf = 0"
  proof cases
    case short
    then show ?thesis by (simp add: scoreWithSubdomains_def)
  next
    case nosub
    then show ?thesis by (simp add: scoreWithSubdomains_def)
  next
    case nomatch
    have "best_score tables q (tl ?hf) 0 0 = 0" if "q \<in> set (SubdomainFragments query)" for q
      using nomatch that by (intro best_score_zero) simp_all
    then have "sum_subdomain_scores tables (SubdomainFragments query) (tl ?hf) 0 = 0"
      by (rule sum_subdomain_scores_zero)
    then show ?thesis by (simp add: scoreWithSubdomains_def Let_def)
  qed
  with eq show ?thesis by simp
qed

theorem Score_zero_without_subdomain_match_witness:
  "HasDot (ParseQuery ''x.zz'')
   \<and> SubdomainFragments (ParseQuery ''x.zz'') = [''zz'']
   \<and> tl (HostnameFragments (ToLower (Hostname (example_service ''x.ha.example.com'' 0))))
       = [''ha'', ''example'', ''com'']
   \<and> scoreFragment latin1_tables ''zz'' ''ha'' 0 = 0
   \<and> scoreFragment latin1_tables ''zz'' ''example'' 1 = 0
   \<and> scoreFragment latin1_tables ''zz'' ''com'' 2 = 0
   \<and> Score latin1_tables (ParseQuery ''x.zz'') (example_service ''x.ha.example.com'' 0) = 0"
proof -
  have q: "ParseQuery ''x.zz'' = \<lparr>Raw = ''x.zz'', Fragments = [''x'', ''zz''], HasDot = True,
      TopLevelFragments = [''x''], SubdomainFragments = [''zz'']\<rparr>"
    by (simp add: ParseQuery_def string_eval)
  have h: "tl (HostnameFragments (ToLower (Hostname (example_service ''x.ha.example.com'' 0))))
       = [''ha'', ''example'', ''com'']"
    by (simp add: HostnameFragments_def example_service_def string_eval)
  have s0: "scoreFragment latin1_tables ''zz'' ''ha'' 0 = 0"
    by (simp add: score_eval string_eval)
  have s1: "scoreFragment latin1_tables ''zz'' ''example'' 1 = 0"
    by (simp add: score_eval string_eval)
  have s2: "scoreFragment latin1_tables ''zz'' ''com'' 2 = 0"
    by (simp add: score_eval string_eval)
  have all: "\<forall>i < length [''ha'', ''example'', ''com''].
      scoreFragment latin1_tables ''zz'' ([''ha'', ''example'', ''com''] ! i) i = 0"
  proof (intro allI impI)
    fix i :: nat
    assume "i < length [''ha'', ''example'', ''com'']"
    then have "i = 0 \<or> i = 1 \<or> i = 2" by auto
    then show "scoreFragment latin1_tables ''zz'' ([''ha'', ''example'', ''com''] ! i) i = 0"
      using s0 s1 s2 by auto
  qed
  have "Score latin1_tables (ParseQuery ''x.zz'') (example_service ''x.ha.example.com'' 0) = 0"
    using Score_zero_without_subdomain_match
      [of "ParseQuery ''x.zz''" "example_service ''x.ha.example.com'' 0" latin1_tables] all
    unfolding h unfolding q by simp
  with q h s0 s1 s2 show ?thesis by simp
qed

lemma calculatePositionBonus_pos: "0 < calculatePositionBonus p"
  by (simp add: calculatePositionBonus_def ScorePositionBonus_def)

lemma calculatePositionBonus_le: "calculatePositionBonus p \<le> 10"
  by (simp add: calculatePositionBonus_def ScorePositionBonus_def)

lemma Index_lower: "- 1 \<le> Index s substr"
  by (induction s) (auto simp: Let_def)

lemma Index_upper: "substr \<noteq> [] \<Longrightarrow> Index s substr < int (length s)"
  by (induction s) (auto simp: Let_def)

lemma decode_from_length: "length (decode_from skip bs) \<le> length bs"
proof (induction skip bs rule: decode_from.induct)
  case (1 skip)
  show ?case by simp
next
  case (2 skip b bs)
  then show ?case by simp
next
  case (3 b bs)
  obtain r width where d: "DecodeRune (b # bs) = (r, width)"
    by (cases "DecodeRune (b # bs)")
  from 3 [OF d [symmetric]] have "length (decode_from (width - 1) bs) \<le> length bs" .
  moreover have "decode_from 0 (b # bs) = r # decode_from (width - 1) bs"
    using d by (simp del: DecodeRune.simps)
  ultimately show ?case by simp
qed

lemma runes_length: "length (runes s) \<le> length s"
  using decode_from_length [of 0 "map of_char s"] by (simp add: runes_def)

lemma count_matches_filter:
  "count_matches rs s2 m = m + length (filter (\<lambda>r. r \<in> set (runes s2)) rs)"
  by (induction rs arbitrary: m) (simp_all add: ContainsRune_def)

lemma calculateSimilarity_le_1: "calculateSimilarity s1 s2 \<le> 1"
proof (cases "s1 = [] \<or> s2 = []")
  case True
  then show ?thesis by (auto simp: calculateSimilarity_def)
next
  case False
  have "length (filter (\<lambda>r. r \<in> set (runes s2)) (runes s1)) \<le> length (runes s1)"
    by (rule length_filter_le)
  also have "\<dots> \<le> length s1" by (rule runes_length)
  finally have "real (length (filter (\<lambda>r. r \<in> set (runes s2)) (runes s1))) \<le> real (length s1)"
    by simp
  then show ?thesis
    using False by (simp add: calculateSimilarity_def count_matches_filter divide_le_eq_1)
qed

text \<open>On a string whose runes are single bytes the similarity is the fraction of the
  characters.\<close>

lemma calculateSimilarity_fraction:
  "s1 \<noteq> [] \<Longrightarrow> s2 \<noteq> [] \<Longrightarrow> length (runes s1) = length s1 \<Longrightarrow>
     calculateSimilarity s1 s2 = character_fraction s1 s2"
  by (simp add: calculateSimilarity_def character_fraction_def count_matches_filter)

lemma HasPrefix_refl: "HasPrefix s s"
  by (induction s) simp_all

lemma scoreFragment_exact:
  assumes "normalizeFragment tables q = q" "q \<noteq> []"
  shows "scoreFragment tables q q p = 100 + calculatePositionBonus p"
  using assms by (simp add: scoreFragment_def ScoreExactMatch_def)

lemma scoreFragment_prefix:
  assumes "normalizeFragment tables q = q" "normalizeFragment tables h = h" "q \<noteq> []" "h \<noteq> []"
    and "q \<noteq> h" "HasPrefix h q"
  shows "scoreFragment tables q h p = 75 + calculatePositionBonus p"
  using assms by (simp add: scoreFragment_def ScorePrefixMatch_def)

lemma scoreFragment_substring:
  assumes "normalizeFragment tables q = q" "normalizeFragment tables h = h" "q \<noteq> []" "h \<noteq> []"
    and "\<not> HasPrefix h q" "Contains h q"
  shows "scoreFragment tables q h p = 50 + 10 * (1 - real_of_int (Index h q) / real (length h))"
proof -
  have "q \<noteq> h" using assms(5) HasPrefix_refl by auto
  then show ?thesis
    using assms
    by (simp add: scoreFragment_def ScoreSubstringMatch_def ScorePositionBonus_def Let_def)
qed

lemma scoreFragment_fuzzy:
  assumes "normalizeFragment tables q = q" "normalizeFragment tables h = h" "q \<noteq> []" "h \<noteq> []"
    and "q \<noteq> h" "\<not> HasPrefix h q" "\<not> Contains h q"
  shows "scoreFragment tables q h p =
    (if calculateSimilarity q h > 1 / 2 then 25 * calculateSimilarity q h else 0)"
  using assms
  by (simp add: scoreFragment_def ScoreFuzzyMatch_def Let_def)

lemma substring_bonus_bounds:
  assumes "h \<noteq> []" "q \<noteq> []" "Contains h q"
  shows "0 < 10 * (1 - real_of_int (Index h q) / real (length h))"
    and "10 * (1 - real_of_int (Index h q) / real (length h)) \<le> 10"
proof -
  have lo: "0 \<le> Index h q" using assms(3) by (simp add: Contains_def)
  have hi: "Index h q < int (length h)" using assms(2) by (rule Index_upper)
  have len: "0 < real (length h)" using assms(1) by simp
  have "real_of_int (Index h q) < real (length h)"
    using hi by (metis of_int_less_iff of_int_of_nat_eq)
  then have "real_of_int (Index h q) / real (length h) < 1"
    using len by (simp add: divide_less_eq_1)
  then show "0 < 10 * (1 - real_of_int (Index h q) / real (length h))" by simp
  have "0 \<le> real_of_int (Index h q) / real (length h)"
    using lo len by simp
  then show "10 * (1 - real_of_int (Index h q) / real (length h)) \<le> 10" by simp
qed

text \<open>
  Claim C7: for nonempty normalized fragments, an exact match scores strictly more than
  any prefix match, a prefix match strictly more than any substring match, and a
  substring match strictly more than the score at the fuzzy level, which is at most 25;
  whatever the positions are.
\<close>

theorem scoreFragment_levels_strictly_ordered:
  assumes exact: "normalizeFragment tables q1 = q1" "q1 \<noteq> []"
    and prefix: "normalizeFragment tables q2 = q2" "normalizeFragment tables h2 = h2"
      "q2 \<noteq> []" "h2 \<noteq> []" "q2 \<noteq> h2" "HasPrefix h2 q2"
    and substring: "normalizeFragment tables q3 = q3" "normalizeFragment tables h3 = h3"
      "q3 \<noteq> []" "h3 \<noteq> []" "\<not> HasPrefix h3 q3" "Contains h3 q3"
    and fuzzy: "normalizeFragment tables q4 = q4" "normalizeFragment tables h4 = h4"
      "q4 \<noteq> []" "h4 \<noteq> []" "q4 \<noteq> h4" "\<not> HasPrefix h4 q4" "\<not> Contains h4 q4"
  shows "scoreFragment tables q1 q1 p1 > scoreFragment tables q2 h2 p2
       \<and> scoreFragment tables q2 h2 p2 > scoreFragment tables q3 h3 p3
       \<and> scoreFragment tables q3 h3 p3 > scoreFragment tables q4 h4 p4
       \<and> scoreFragment tables q4 h4 p4 \<le> 25"
proof -
  have s1: "scoreFragment tables q1 q1 p1 = 100 + calculatePositionBonus p1"
    using exact by (rule scoreFragment_exact)
  have s2: "scoreFragment tables q2 h2 p2 = 75 + calculatePositionBonus p2"
    using prefix by (rule scoreFragment_prefix)
  have s3: "scoreFragment tables q3 h3 p3 = 50 + 10 * (1 - real_of_int (Index h3 q3) / real (length h3))"
    using substring by (rule scoreFragment_substring)
  have s4: "scoreFragment tables q4 h4 p4 =
      (if calculateSimilarity q4 h4 > 1 / 2 then 25 * calculateSimilarity q4 h4 else 0)"
    using fuzzy by (rule scoreFragment_fuzzy)
  have b3: "0 < 10 * (1 - real_of_int (Index h3 q3) / real (length h3))"
      "10 * (1 - real_of_int (Index h3 q3) / real (length h3)) \<le> 10"
    using substring(4,3,6) by (rule substring_bonus_bounds)+
  have f4: "scoreFragment tables q4 h4 p4 \<le> 25"
    using s4 calculateSimilarity_le_1 [of q4 h4] by (simp split: if_splits)
  have "scoreFragment tables q1 q1 p1 > scoreFragment tables q2 h2 p2"
    using s1 s2 calculatePositionBonus_pos [of p1] calculatePositionBonus_le [of p2] by simp
  moreover have "scoreFragment tables q2 h2 p2 > scoreFragment tables q3 h3 p3"
    using s2 s3 b3(2) calculatePositionBonus_pos [of p2] by simp
  moreover have "scoreFragment tables q3 h3 p3 > scoreFragment tables q4 h4 p4"
    using s3 f4 b3(1) by simp
  ultimately show ?thesis using f4 by simp
qed

theorem scoreFragment_levels_strictly_ordered_witness:
  "normalizeFragment latin1_tables ''jellyfin'' = ''jellyfin''
   \<and> normalizeFragment latin1_tables ''jelly'' = ''jelly'' \<and> HasPrefix ''jellyfin'' ''jelly''
   \<and> normalizeFragment latin1_tables ''fin'' = ''fin'' \<and> \<not> HasPrefix ''jellyfin'' ''fin''
   \<and> Contains ''jellyfin'' ''fin''
   \<and> normalizeFragment latin1_tables ''trfk'' = ''trfk''
   \<and> normalizeFragment latin1_tables ''traefik'' = ''traefik''
   \<and> \<not> HasPrefix ''traefik'' ''trfk'' \<and> \<not> Contains ''traefik'' ''trfk''
   \<and> scoreFragment latin1_tables ''jellyfin'' ''jellyfin'' 2
       > scoreFragment latin1_tables ''jelly'' ''jellyfin'' 0
   \<and> scoreFragment latin1_tables ''jelly'' ''jellyfin'' 0
       > scoreFragment latin1_tables ''fin'' ''jellyfin'' 0
   \<and> scoreFragment latin1_tables ''fin'' ''jellyfin'' 0
       > scoreFragment latin1_tables ''trfk'' ''traefik'' 0
   \<and> scoreFragment latin1_tables ''trfk'' ''traefik'' 0 \<le> 25"
proof -
  note n = normalize_examples
  have m: "HasPrefix ''jellyfin'' ''jelly''" "\<not> HasPrefix ''jellyfin'' ''fin''"
    "Contains ''jellyfin'' ''fin''" "\<not> HasPrefix ''traefik'' ''trfk''"
    "\<not> Contains ''traefik'' ''trfk''"
    by (simp_all add: Contains_def)
  show ?thesis
    using scoreFragment_levels_strictly_ordered
      [where ?tables = latin1_tables
         and ?q1.0 = "''jellyfin''" and ?q2.0 = "''jelly''" and ?h2.0 = "''jellyfin''"
         and ?q3.0 = "''fin''" and ?h3.0 = "''jellyfin''" and ?q4.0 = "''trfk''"
         and ?h4.0 = "''traefik''" and ?p1.0 = 2 and ?p2.0 = 0 and ?p3.0 = 0 and ?p4.0 = 0]
      n m
    by simp
qed

text \<open>
  For nonempty normalized fragments with no exact, prefix or substring relation the
  score is 25 times the similarity when that exceeds one half, and 0 otherwise. When
  the runes of \<open>q\<close> are single bytes, the similarity is the fraction of the characters
  of \<open>q\<close> that occur in \<open>h\<close>, and a \<open>q\<close> all of whose characters occur in \<open>h\<close> gets
  the full 25.
\<close>

lemma scoreFragment_fuzzy_single_bytes:
  assumes "normalizeFragment tables q = q" "normalizeFragment tables h = h" "q \<noteq> []" "h \<noteq> []"
    and "q \<noteq> h" "\<not> HasPrefix h q" "\<not> Contains h q"
    and single: "length (runes q) = length q"
  shows "scoreFragment tables q h p =
      (if character_fraction q h > 1 / 2 then 25 * character_fraction q h else 0)"
    and "set (runes q) \<subseteq> set (runes h) \<Longrightarrow> scoreFragment tables q h p = 25"
proof -
  have sim: "calculateSimilarity q h = character_fraction q h"
    using assms(3,4) single by (rule calculateSimilarity_fraction)
  show s: "scoreFragment tables q h p =
      (if character_fraction q h > 1 / 2 then 25 * character_fraction q h else 0)"
    using scoreFragment_fuzzy [OF assms(1-7), of p] sim by simp
  assume sub: "set (runes q) \<subseteq> set (runes h)"
  have "filter (\<lambda>r. r \<in> set (runes h)) (runes q) = runes q"
    using sub by (auto simp: filter_id_conv)
  then have "character_fraction q h = 1"
    using assms(3) single by (simp add: character_fraction_def)
  with s show "scoreFragment tables q h p = 25" by simp
qed

text \<open>
  Claim C10 fails on fragments with a rune of more than one byte: the loop of
  \<open>calculateSimilarity\<close> counts the runes of \<open>s1\<close> that occur in \<open>s2\<close>, and the count is
  divided by \<open>len(s1)\<close>, the number of bytes. The fragment \<open>tr\<close> followed by e-acute
  (the bytes C3 A9) has 3 characters, 2 of which occur in \<open>traefik\<close>: the fraction is
  2/3 and the claim gives 25 times 2/3, the code computes 2/4, which does not exceed one
  half, and scores 0. Every character of e-acute followed by \<open>a\<close> occurs in \<open>a\<close>
  followed by e-acute: the claim gives the full 25, the code 25 times 2/3.
\<close>

theorem calculateSimilarity_divides_by_bytes:
  "normalizeFragment latin1_tables [CHR ''t'', CHR ''r'', CHR 0xC3, CHR 0xA9] =
     [CHR ''t'', CHR ''r'', CHR 0xC3, CHR 0xA9]
   \<and> normalizeFragment latin1_tables ''traefik'' = ''traefik''
   \<and> \<not> HasPrefix ''traefik'' [CHR ''t'', CHR ''r'', CHR 0xC3, CHR 0xA9]
   \<and> \<not> Contains ''traefik'' [CHR ''t'', CHR ''r'', CHR 0xC3, CHR 0xA9]
   \<and> character_fraction [CHR ''t'', CHR ''r'', CHR 0xC3, CHR 0xA9] ''traefik'' = 2 / 3
   \<and> scoreFragment latin1_tables [CHR ''t'', CHR ''r'', CHR 0xC3, CHR 0xA9] ''traefik'' 0 = 0
   \<and> normalizeFragment latin1_tables [CHR 0xC3, CHR 0xA9, CHR ''a''] =
       [CHR 0xC3, CHR 0xA9, CHR ''a'']
   \<and> normalizeFragment latin1_tables [CHR ''a'', CHR 0xC3, CHR 0xA9] =
       [CHR ''a'', CHR 0xC3, CHR 0xA9]
   \<and> \<not> HasPrefix [CHR ''a'', CHR 0xC3, CHR 0xA9] [CHR 0xC3, CHR 0xA9, CHR ''a'']
   \<and> \<not> Contains [CHR ''a'', CHR 0xC3, CHR 0xA9] [CHR 0xC3, CHR 0xA9, CHR ''a'']
   \<and> set (runes [CHR 0xC3, CHR 0xA9, CHR ''a'']) \<subseteq> set (runes [CHR ''a'', CHR 0xC3, CHR 0xA9])
   \<and> character_fraction [CHR 0xC3, CHR 0xA9, CHR ''a''] [CHR ''a'', CHR 0xC3, CHR 0xA9] = 1
   \<and> scoreFragment latin1_tables [CHR 0xC3, CHR 0xA9, CHR ''a'']
         [CHR ''a'', CHR 0xC3, CHR 0xA9] 0 = 50 / 3"
proof -
  have m: "\<not> HasPrefix ''traefik'' [CHR ''t'', CHR ''r'', CHR 0xC3, CHR 0xA9]"
    "\<not> Contains ''traefik'' [CHR ''t'', CHR ''r'', CHR 0xC3, CHR 0xA9]"
    "\<not> HasPrefix [CHR ''a'', CHR 0xC3, CHR 0xA9] [CHR 0xC3, CHR 0xA9, CHR ''a'']"
    "\<not> Contains [CHR ''a'', CHR 0xC3, CHR 0xA9] [CHR 0xC3, CHR 0xA9, CHR ''a'']"
    by (simp_all add: Contains_def)
  have f: "character_fraction [CHR ''t'', CHR ''r'', CHR 0xC3, CHR 0xA9] ''traefik'' = 2 / 3"
    "character_fraction [CHR 0xC3, CHR 0xA9, CHR ''a''] [CHR ''a'', CHR 0xC3, CHR 0xA9] = 1"
    by (simp_all add: character_fraction_def runes_def continuation_def)
  have sub: "set (runes [CHR 0xC3, CHR 0xA9, CHR ''a'']) \<subseteq>
      set (runes [CHR ''a'', CHR 0xC3, CHR 0xA9])"
    by (simp add: runes_def continuation_def)
  have s: "scoreFragment latin1_tables [CHR ''t'', CHR ''r'', CHR 0xC3, CHR 0xA9] ''traefik'' 0 = 0"
    "scoreFragment latin1_tables [CHR 0xC3, CHR 0xA9, CHR ''a'']
         [CHR ''a'', CHR 0xC3, CHR 0xA9] 0 = 50 / 3"
    by (simp_all add: score_eval)
  from m f sub s normalize_examples show ?thesis by simp
qed

section \<open>Properties of the ranking\<close>

declare sort_inner.simps [simp del] sort_outer.simps [simp del]

lemma collect_candidates_eq:
  "collect_candidates tables query svcs =
     map (candidate_of tables query) (filter (\<lambda>s. ranked tables s query) svcs)"
  by (induction svcs) (simp_all add: Let_def candidate_of_def ranked_def)

lemma bubble_length [simp]: "length (bubble score xs) = length xs"
  by (induction score xs rule: bubble.induct) simp_all

lemma bubble_mset [simp]: "mset (bubble score xs) = mset xs"
  by (induction score xs rule: bubble.induct) simp_all

lemma bubble_Nil_iff [simp]: "bubble score xs = [] \<longleftrightarrow> xs = []"
  by (induction score xs rule: bubble.induct) simp_all

lemma bubble_stable:
  "filter (\<lambda>c. score c = k) (bubble score xs) = filter (\<lambda>c. score c = k) xs"
  by (induction score xs rule: bubble.induct) auto

lemma bubble_last_least:
  "xs \<noteq> [] \<Longrightarrow> a \<in> set xs \<Longrightarrow> score (last (bubble score xs)) \<le> score a"
proof (induction score xs arbitrary: a rule: bubble.induct)
  case (1 score)
  then show ?case by simp
next
  case (2 score x)
  then show ?case by simp
next
  case (3 score x y zs)
  show ?case
  proof (cases "score x < score y")
    case True
    have l: "score (last (bubble score (x # zs))) \<le> score b" if "b \<in> set (x # zs)" for b
      using "3.IH"(1) [OF True _ that] by simp
    have "score (last (bubble score (x # zs))) \<le> score y"
      using l [of x] True by simp
    with l "3.prems"(2) True show ?thesis by auto
  next
    case False
    have l: "score (last (bubble score (y # zs))) \<le> score b" if "b \<in> set (y # zs)" for b
      using "3.IH"(2) [OF False _ that] by simp
    have "score (last (bubble score (y # zs))) \<le> score x"
      using l [of y] False by simp
    with l "3.prems"(2) False show ?thesis by auto
  qed
qed

lemma sort_inner_bubble:
  "length pre = j \<Longrightarrow> j + length mid = hi \<Longrightarrow>
     sort_inner score (pre @ x # mid @ post) hi j = pre @ bubble score (x # mid) @ post"
proof (induction mid arbitrary: pre x j)
  case Nil
  then show ?case by (simp add: sort_inner.simps)
next
  case (Cons y mid)
  have lt: "j < hi" using Cons.prems by simp
  have nj: "(pre @ x # (y # mid) @ post) ! j = x"
    using Cons.prems(1) by (simp add: nth_append)
  have nj1: "(pre @ x # (y # mid) @ post) ! (j + 1) = y"
    using Cons.prems(1) by (simp add: nth_append)
  have upd: "(pre @ x # (y # mid) @ post)[j := y, j + 1 := x] = (pre @ [y]) @ x # mid @ post"
    using Cons.prems(1) by (simp add: list_update_append)
  have same: "pre @ x # (y # mid) @ post = (pre @ [x]) @ y # mid @ post"
    by simp
  show ?case
  proof (cases "score x < score y")
    case True
    have "sort_inner score (pre @ x # (y # mid) @ post) hi j =
        sort_inner score ((pre @ [y]) @ x # mid @ post) hi (j + 1)"
      using lt True nj nj1 upd by (subst sort_inner.simps) simp
    also have "\<dots> = (pre @ [y]) @ bubble score (x # mid) @ post"
      using Cons.prems by (intro Cons.IH) simp_all
    finally show ?thesis using True by simp
  next
    case False
    have "sort_inner score (pre @ x # (y # mid) @ post) hi j =
        sort_inner score ((pre @ [x]) @ y # mid @ post) hi (j + 1)"
      using lt False nj nj1 by (subst sort_inner.simps) simp
    also have "\<dots> = (pre @ [x]) @ bubble score (y # mid) @ post"
      using Cons.prems by (intro Cons.IH) simp_all
    finally show ?thesis using False by simp
  qed
qed

lemma sort_inner_pass:
  assumes "hi < length xs"
  shows "sort_inner score xs hi 0 = bubble score (take (hi + 1) xs) @ drop (hi + 1) xs"
proof -
  obtain x mid where tk: "take (hi + 1) xs = x # mid"
    using assms by (cases "take (hi + 1) xs") auto
  have len: "length mid = hi"
    using assms arg_cong [OF tk, of length] by simp
  have "xs = [] @ x # mid @ drop (hi + 1) xs"
    using tk append_take_drop_id [of "hi + 1" xs] by simp
  then have "sort_inner score xs hi 0 = sort_inner score ([] @ x # mid @ drop (hi + 1) xs) hi 0"
    by simp
  also have "\<dots> = [] @ bubble score (x # mid) @ drop (hi + 1) xs"
    using len by (intro sort_inner_bubble) simp_all
  finally show ?thesis using tk by simp
qed
lemma sort_inner_length:
  "hi < length xs \<Longrightarrow> length (sort_inner score xs hi 0) = length xs"
  by (simp add: sort_inner_pass)

lemma sort_inner_mset:
  assumes "hi < length xs"
  shows "mset (sort_inner score xs hi 0) = mset xs"
proof -
  have "mset (sort_inner score xs hi 0) = mset (take (hi + 1) xs) + mset (drop (hi + 1) xs)"
    using assms by (simp add: sort_inner_pass)
  then show ?thesis by (metis append_take_drop_id mset_append)
qed

lemma sort_inner_stable:
  assumes "hi < length xs"
  shows "filter (\<lambda>c. score c = k) (sort_inner score xs hi 0) = filter (\<lambda>c. score c = k) xs"
proof -
  have "filter (\<lambda>c. score c = k) (sort_inner score xs hi 0) =
      filter (\<lambda>c. score c = k) (take (hi + 1) xs) @
      filter (\<lambda>c. score c = k) (drop (hi + 1) xs)"
    using assms by (simp add: sort_inner_pass bubble_stable)
  then show ?thesis by (metis append_take_drop_id filter_append)
qed

lemma sort_outer_mset:
  "n = length xs \<Longrightarrow> mset (sort_outer score xs n i) = mset xs"
proof (induction score xs n i rule: sort_outer.induct)
  case (1 score xs n i)
  show ?case
  proof (cases "i + 1 < n")
    case True
    then have hi: "n - i - 1 < length xs" using "1.prems" by simp
    have "mset (sort_outer score (sort_inner score xs (n - i - 1) 0) n (i + 1)) =
        mset (sort_inner score xs (n - i - 1) 0)"
      using "1.IH" [OF True] "1.prems" sort_inner_length [OF hi] by simp
    then show ?thesis
      using True sort_inner_mset [OF hi] by (subst sort_outer.simps) simp
  next
    case False
    then show ?thesis by (subst sort_outer.simps) simp
  qed
qed

lemma sort_outer_stable:
  "n = length xs \<Longrightarrow>
     filter (\<lambda>c. score c = k) (sort_outer score xs n i) = filter (\<lambda>c. score c = k) xs"
proof (induction score xs n i rule: sort_outer.induct)
  case (1 score xs n i)
  show ?case
  proof (cases "i + 1 < n")
    case True
    then have hi: "n - i - 1 < length xs" using "1.prems" by simp
    have "filter (\<lambda>c. score c = k) (sort_outer score (sort_inner score xs (n - i - 1) 0) n (i + 1)) =
        filter (\<lambda>c. score c = k) (sort_inner score xs (n - i - 1) 0)"
      using "1.IH" [OF True] "1.prems" sort_inner_length [OF hi] by simp
    then show ?thesis
      using True sort_inner_stable [OF hi] by (subst sort_outer.simps) simp
  next
    case False
    then show ?thesis by (subst sort_outer.simps) simp
  qed
qed

lemma descending_by_short: "length ys \<le> 1 \<Longrightarrow> descending_by score ys"
  by (cases ys) (auto simp: descending_by_def)

lemma sort_outer_descending:
  "n = length xs \<Longrightarrow> i \<le> n \<Longrightarrow> descending_by score (drop (n - i) xs) \<Longrightarrow>
   (\<And>a b. a \<in> set (take (n - i) xs) \<Longrightarrow> b \<in> set (drop (n - i) xs) \<Longrightarrow>
       score b \<le> score a) \<Longrightarrow>
   descending_by score (sort_outer score xs n i)"
proof (induction score xs n i rule: sort_outer.induct)
  case (1 score xs n i)
  let ?P = "take (n - i) xs" and ?S = "drop (n - i) xs"
  show ?case
  proof (cases "i + 1 < n")
    case False
    then have "length ?P \<le> 1" using "1.prems"(1,2) by simp
    then have "descending_by score ?P"
      by (rule descending_by_short)
    then have "descending_by score (?P @ ?S)"
      using "1.prems"(3,4) unfolding descending_by_def sorted_wrt_append by blast
    then have "descending_by score xs"
      by (simp only: append_take_drop_id)
    then show ?thesis
      using False by (subst sort_outer.simps) simp
  next
    case True
    then have hi: "n - i - 1 < length xs" using "1.prems"(1) by simp
    have hi1: "n - i - 1 + 1 = n - i" using True by simp
    let ?B = "bubble score ?P"
    have pass: "sort_inner score xs (n - i - 1) 0 = ?B @ ?S"
      using sort_inner_pass [OF hi] hi1 by simp
    have Pne: "?P \<noteq> []" using True "1.prems"(1) by auto
    then have Bne: "?B \<noteq> []" by simp
    have lenB: "length ?B = n - i" using "1.prems"(1) by simp
    have B: "?B = butlast ?B @ [last ?B]" using Bne by simp
    have setB: "set ?B = set ?P"
      using bubble_mset [of score ?P] by (metis set_mset_mset)
    have lastB: "last ?B \<in> set ?P" using Bne setB last_in_set by blast
    have xs': "sort_inner score xs (n - i - 1) 0 = butlast ?B @ last ?B # ?S"
      using pass B by (metis append.assoc append_Cons append_Nil)
    have lenbl: "length (butlast ?B) = n - (i + 1)" using lenB by simp
    have tk: "take (n - (i + 1)) (sort_inner score xs (n - i - 1) 0) = butlast ?B"
      using xs' lenbl by simp
    have dr: "drop (n - (i + 1)) (sort_inner score xs (n - i - 1) 0) = last ?B # ?S"
      using xs' lenbl by simp
    have d: "descending_by score (last ?B # ?S)"
      using "1.prems"(3) "1.prems"(4) [OF lastB] by (auto simp: descending_by_def)
    have cross: "score b \<le> score a"
      if "a \<in> set (butlast ?B)" "b \<in> set (last ?B # ?S)" for a b
    proof -
      have aP: "a \<in> set ?P" using that(1) setB in_set_butlastD by fastforce
      show ?thesis
      proof (cases "b = last ?B")
        case True
        then show ?thesis using bubble_last_least [OF Pne aP] by simp
      next
        case False
        then have "b \<in> set ?S" using that(2) by simp
        then show ?thesis using "1.prems"(4) [OF aP] by simp
      qed
    qed
    have "descending_by score (sort_outer score (sort_inner score xs (n - i - 1) 0) n (i + 1))"
    proof (rule "1.IH" [OF True])
      show "n = length (sort_inner score xs (n - i - 1) 0)"
        using sort_inner_length [OF hi] "1.prems"(1) by simp
      show "i + 1 \<le> n" using True by simp
      show "descending_by score (drop (n - (i + 1)) (sort_inner score xs (n - i - 1) 0))"
        using d dr by simp
      show "score b \<le> score a"
        if "a \<in> set (take (n - (i + 1)) (sort_inner score xs (n - i - 1) 0))"
          "b \<in> set (drop (n - (i + 1)) (sort_inner score xs (n - i - 1) 0))" for a b
        using cross that unfolding tk dr by simp
    qed
    then show ?thesis
      using True by (subst sort_outer.simps) simp
  qed
qed

lemma sortCandidates_mset: "mset (sortCandidates cs) = mset cs"
  by (simp add: sortCandidates_def sort_outer_mset)

lemma sortCandidates_stable:
  "filter (\<lambda>c. TotalScore c = k) (sortCandidates cs) = filter (\<lambda>c. TotalScore c = k) cs"
  by (simp add: sortCandidates_def sort_outer_stable)

lemma sort_outer_descending_all:
  "descending_by score (sort_outer score cs (length cs) 0)"
  by (rule sort_outer_descending) (simp_all add: descending_by_def)

lemma sortCandidates_descending: "descending (sortCandidates cs)"
  unfolding sortCandidates_def descending_def by (rule sort_outer_descending_all)
lemma usage_score_log:
  "0 \<le> Counter service \<Longrightarrow>
     usage_score service = log 10 (real_of_int (Counter service) + 1) * 10"
  by (cases "Counter service = 0") (simp_all add: usage_score_def ScoreUsageWeight_def)

text \<open>
  Claim C8: \<open>RankCandidates\<close> returns a permutation of the candidates of exactly those
  input services that are not disabled and have a nonzero lexical score; each
  candidate's total score is its lexical score plus its usage score, which is
  \<open>log10(counter + 1) \<cdot> 10\<close> for a nonnegative counter; the result is in non-increasing
  order of the total score, and candidates of equal total score keep the order of the
  input.
\<close>

theorem RankCandidates_ranked:
  "mset (RankCandidates tables query svcs) =
     mset (map (candidate_of tables query) (filter (\<lambda>s. ranked tables s query) svcs))
   \<and> (\<forall>c \<in> set (RankCandidates tables query svcs).
        Service c \<in> set svcs \<and> \<not> Disabled (Service c)
        \<and> LexicalScore c = Score tables query (Service c) \<and> LexicalScore c \<noteq> 0
        \<and> TotalScore c = LexicalScore c + UsageScore c
        \<and> (0 \<le> Counter (Service c) \<longrightarrow>
             UsageScore c = log 10 (real_of_int (Counter (Service c)) + 1) * 10))
   \<and> descending (RankCandidates tables query svcs)
   \<and> (\<forall>k. filter (\<lambda>c. TotalScore c = k) (RankCandidates tables query svcs) =
            filter (\<lambda>c. TotalScore c = k)
              (map (candidate_of tables query) (filter (\<lambda>s. ranked tables s query) svcs)))"
proof -
  let ?cs = "map (candidate_of tables query) (filter (\<lambda>s. ranked tables s query) svcs)"
  have R: "RankCandidates tables query svcs = sortCandidates ?cs"
    by (simp add: RankCandidates_def collect_candidates_eq)
  have m: "mset (RankCandidates tables query svcs) = mset ?cs"
    unfolding R by (rule sortCandidates_mset)
  have each: "Service c \<in> set svcs \<and> \<not> Disabled (Service c)
        \<and> LexicalScore c = Score tables query (Service c) \<and> LexicalScore c \<noteq> 0
        \<and> TotalScore c = LexicalScore c + UsageScore c
        \<and> (0 \<le> Counter (Service c) \<longrightarrow>
             UsageScore c = log 10 (real_of_int (Counter (Service c)) + 1) * 10)"
    if "c \<in> set (RankCandidates tables query svcs)" for c
  proof -
    have "c \<in> set ?cs"
      using that m by (metis set_mset_mset)
    then obtain s where s: "s \<in> set svcs" "ranked tables s query" "c = candidate_of tables query s"
      by auto
    then show ?thesis
      by (simp add: candidate_of_def ranked_def usage_score_log)
  qed
  have d: "descending (RankCandidates tables query svcs)"
    unfolding R by (rule sortCandidates_descending)
  have st: "filter (\<lambda>c. TotalScore c = k) (RankCandidates tables query svcs) =
      filter (\<lambda>c. TotalScore c = k) ?cs" for k
    unfolding R by (rule sortCandidates_stable)
  from m each d st show ?thesis by blast
qed

theorem RankCandidates_ranked_witness:
  "RankCandidates latin1_tables (ParseQuery ''je'')
     [example_service ''jellyseerr.example.com'' 0, example_service ''jellyfin.example.com'' 9] =
     [\<lparr>Service = example_service ''jellyfin.example.com'' 9, LexicalScore = 90,
       UsageScore = 10, TotalScore = 100\<rparr>,
      \<lparr>Service = example_service ''jellyseerr.example.com'' 0, LexicalScore = 85,
       UsageScore = 0, TotalScore = 85\<rparr>]
   \<and> (0::int) \<le> Counter (example_service ''jellyfin.example.com'' 9)
   \<and> (10::real) = log 10 (real_of_int (Counter (example_service ''jellyfin.example.com'' 9)) + 1) * 10
   \<and> descending (RankCandidates latin1_tables (ParseQuery ''je'')
     [example_service ''jellyseerr.example.com'' 0, example_service ''jellyfin.example.com'' 9])"
proof -
  let ?a = "example_service ''jellyseerr.example.com'' 0"
  let ?b = "example_service ''jellyfin.example.com'' 9"
  let ?q = "ParseQuery ''je''"
  have q: "?q = \<lparr>Raw = ''je'', Fragments = [''je''], HasDot = False,
      TopLevelFragments = [''je''], SubdomainFragments = []\<rparr>"
    by (simp add: ParseQuery_def string_eval)
  have sa: "Score latin1_tables ?q ?a = 85"
    unfolding q
    by (simp add: Score_def scoreTopLevelOnly_def HostnameFragments_def example_service_def
        calculatePositionBonus_def score_eval string_eval)
  have sb: "Score latin1_tables ?q ?b = 90"
    unfolding q
    by (simp add: Score_def scoreTopLevelOnly_def HostnameFragments_def example_service_def
        calculatePositionBonus_def score_eval string_eval)
  have ua: "usage_score ?a = 0"
    by (simp add: usage_score_def example_service_def)
  have ub: "usage_score ?b = 10"
    by (simp add: usage_score_def example_service_def ScoreUsageWeight_def)
  have dis: "\<not> Disabled ?a" "\<not> Disabled ?b"
    by (simp_all add: example_service_def)
  have c: "collect_candidates latin1_tables ?q [?a, ?b] =
      [\<lparr>Service = ?a, LexicalScore = 85, UsageScore = 0, TotalScore = 85\<rparr>,
       \<lparr>Service = ?b, LexicalScore = 90, UsageScore = 10, TotalScore = 100\<rparr>]"
    using sa sb ua ub dis by (simp add: Let_def)
  have r: "RankCandidates latin1_tables ?q [?a, ?b] =
      [\<lparr>Service = ?b, LexicalScore = 90, UsageScore = 10, TotalScore = 100\<rparr>,
       \<lparr>Service = ?a, LexicalScore = 85, UsageScore = 0, TotalScore = 85\<rparr>]"
    unfolding RankCandidates_def c
    by (simp add: sortCandidates_def sort_outer.simps sort_inner.simps)
  have cnt: "(0::int) \<le> Counter ?b"
    by (simp add: example_service_def)
  have mem: "\<lparr>Service = ?b, LexicalScore = 90, UsageScore = 10, TotalScore = 100\<rparr>
      \<in> set (RankCandidates latin1_tables ?q [?a, ?b])"
    unfolding r by simp
  from RankCandidates_ranked [of latin1_tables ?q "[?a, ?b]"]
  have u: "\<forall>c \<in> set (RankCandidates latin1_tables ?q [?a, ?b]). 0 \<le> Counter (Service c) \<longrightarrow>
        UsageScore c = log 10 (real_of_int (Counter (Service c)) + 1) * 10"
    and d: "descending (RankCandidates latin1_tables ?q [?a, ?b])"
    by blast+
  have "(10::real) = log 10 (real_of_int (Counter ?b) + 1) * 10"
    using u mem cnt by fastforce
  with r cnt d show ?thesis by simp
qed

section \<open>Properties of the source loader\<close>

lemma match_placeholder_complete:
  assumes "is_placeholder p"
  shows "match_placeholder (p @ rest) = Some rest"
proof -
  obtain body where p: "p = ''{{'' @ body @ ''}}''" and ne: "body \<noteq> []"
    and nb: "CHR ''}'' \<notin> set body"
    using assms unfolding is_placeholder_def by blast
  have all: "\<forall>c \<in> set body. c \<noteq> CHR ''}''" using nb by auto
  have tw: "takeWhile (\<lambda>c. c \<noteq> CHR ''}'') (body @ ''}}'' @ rest) = body"
    using all by (simp add: takeWhile_append2)
  have dw: "dropWhile (\<lambda>c. c \<noteq> CHR ''}'') (body @ ''}}'' @ rest) = ''}}'' @ rest"
    using all by (simp add: dropWhile_append2)
  have "p @ rest = CHR ''{'' # CHR ''{'' # (body @ ''}}'' @ rest)"
    using p by simp
  then show ?thesis
    using tw dw ne by (simp add: match_placeholder_def Let_def)
qed

lemma match_placeholder_sound:
  assumes "match_placeholder s = Some r"
  shows "\<exists>n. is_placeholder (take n s)"
proof -
  obtain c1 c2 rest where s: "s = c1 # c2 # rest"
    using assms
    by (cases s rule: list.exhaust [case_product list.exhaust])
       (auto simp: match_placeholder_def split: list.splits)
  let ?body = "takeWhile (\<lambda>c. c \<noteq> CHR ''}'') rest"
  let ?after = "dropWhile (\<lambda>c. c \<noteq> CHR ''}'') rest"
  have c: "c1 = CHR ''{''" "c2 = CHR ''{''" "?body \<noteq> []" "take 2 ?after = ''}}''"
    using assms unfolding s match_placeholder_def by (simp_all add: Let_def split: if_splits)
  have after: "?after = ''}}'' @ drop 2 ?after"
    using c(4) append_take_drop_id [of 2 ?after] by metis
  have "rest = ?body @ ?after" by simp
  then have rest: "rest = ?body @ ''}}'' @ drop 2 ?after" using after by metis
  have nb: "CHR ''}'' \<notin> set ?body"
    using set_takeWhileD by fastforce
  have "s = (''{{'' @ ?body @ ''}}'') @ drop 2 ?after"
    using s c(1,2) rest by (metis append_Cons append_Nil append.assoc)
  then have "take (length (''{{'' @ ?body @ ''}}'')) s = ''{{'' @ ?body @ ''}}''"
    by (metis append_eq_conv_conj)
  moreover have "is_placeholder (''{{'' @ ?body @ ''}}'')"
    unfolding is_placeholder_def using c(3) nb by blast
  ultimately show ?thesis by metis
qed

lemma is_placeholder_length: "is_placeholder p \<Longrightarrow> 5 \<le> length p"
  unfolding is_placeholder_def by (auto simp: Suc_le_eq)

text \<open>
  Claim C9, as stated, fails: a placeholder is not replaced by the empty string, two
  double quotes stand in its place.
\<close>

theorem stripTemplateVariables_counterexample:
  "spec_stripTemplateVariables ''a{{x}}b'' = ''ab''
   \<and> stripTemplateVariables ''a{{x}}b'' \<noteq> spec_stripTemplateVariables ''a{{x}}b''"
  by (simp add: spec_stripTemplateVariables_def stripTemplateVariables_def
      match_placeholder_def)

text \<open>
  Claim C9, amended: before the bytes are parsed, the data is scanned from the left;
  where a placeholder of the pattern starts, the two bytes of an empty YAML string
  (two double quotes) replace it and the scan goes on behind it; a byte at which no
  placeholder starts is left unchanged.
\<close>

theorem stripTemplateVariables_replaces:
  "stripTemplateVariables [] = []
   \<and> (is_placeholder p \<longrightarrow>
        stripTemplateVariables (p @ rest) = [CHR 0x22, CHR 0x22] @ stripTemplateVariables rest)
   \<and> ((\<forall>n. \<not> is_placeholder (take n (c # cs))) \<longrightarrow>
        stripTemplateVariables (c # cs) = c # stripTemplateVariables cs)
   \<and> Load (Some data) unmarshal =
        (case unmarshal (stripTemplateVariables data) of
           None \<Rightarrow> Inl ParseFailed | Some config \<Rightarrow> Inr config)"
proof -
  have a: "stripTemplateVariables [] = []"
    by (simp add: stripTemplateVariables_def)
  have b: "stripTemplateVariables (p @ rest) =
      [CHR 0x22, CHR 0x22] @ stripTemplateVariables rest" if "is_placeholder p"
  proof -
    have m: "match_placeholder (p @ rest) = Some rest"
      using that by (rule match_placeholder_complete)
    have "5 \<le> length p"
      using that by (rule is_placeholder_length)
    then obtain x xs where px: "p @ rest = x # xs"
      by (cases "p @ rest") auto
    show ?thesis
      using m unfolding stripTemplateVariables_def px by simp
  qed
  have c: "stripTemplateVariables (c # cs) = c # stripTemplateVariables cs"
    if "\<forall>n. \<not> is_placeholder (take n (c # cs))"
  proof -
    have "match_placeholder (c # cs) = None"
      using that match_placeholder_sound [of "c # cs"] by (cases "match_placeholder (c # cs)") auto
    then show ?thesis
      by (simp add: stripTemplateVariables_def)
  qed
  have d: "Load (Some data) unmarshal =
        (case unmarshal (stripTemplateVariables data) of
           None \<Rightarrow> Inl ParseFailed | Some config \<Rightarrow> Inr config)"
    by (simp add: Load_def)
  from a b c d show ?thesis by blast
qed

theorem stripTemplateVariables_replaces_witness:
  "is_placeholder ''{{x}}''
   \<and> stripTemplateVariables (''{{x}}'' @ ''b'') =
       [CHR 0x22, CHR 0x22] @ stripTemplateVariables ''b''
   \<and> (\<forall>n. \<not> is_placeholder (take n ''b''))
   \<and> stripTemplateVariables ''b'' = CHR ''b'' # stripTemplateVariables []"
proof -
  have p: "is_placeholder ''{{x}}''"
    unfolding is_placeholder_def by (rule exI [of _ "''x''"]) simp
  have n: "\<forall>n. \<not> is_placeholder (take n ''b'')"
  proof (intro allI notI)
    fix n
    assume "is_placeholder (take n ''b'')"
    then have "5 \<le> length (take n ''b'')" by (rule is_placeholder_length)
    then show False by simp
  qed
  from stripTemplateVariables_replaces [of "''{{x}}''" "''b''" "CHR ''b''" "[]"] p n
  show ?thesis by blast
qed

section \<open>Properties of the resolver\<close>

lemmas resolver_eval =
  Search_def handleBookmarkSearch_def handleInternalEndpoint_def handleCachedService_def
  handleServiceSearch_def Redirect_def TrimPrefix_def HasSuffix_def isAllowedRedirect_def
  matchInternalEndpoint_def internal_endpoints_def GetCachedResolution_def
  IncrementUsage_def UpdateServiceCounter_def SaveService_def CacheResolution_def
  InvalidateCache_def IncrementCounter_def inc64_def GetAllServices_def GetAllBookmarks_def
  List.map_filter_def

lemmas example_eval =
  example_deps_def example_env_def example_bookmark_def example_world_def empty_store_def
  NewMemoryIndex_def example_service_def

lemma sort_outer_set: "set (sort_outer score cs (length cs) 0) = set cs"
  using sort_outer_mset [of "length cs" cs score 0] by (metis set_mset_mset)

lemma collect_bookmark_candidates_member:
  "c \<in> set (collect_bookmark_candidates queryStr bms) \<Longrightarrow>
     Bookmark c \<in> set bms \<and> \<not> Bookmark.Disabled (Bookmark c)"
  by (induction bms) (auto simp: Let_def split: if_splits)

lemma RankBookmarkCandidates_member:
  assumes "c \<in> set (RankBookmarkCandidates queryStr bms)"
  shows "Bookmark c \<in> set bms \<and> \<not> Bookmark.Disabled (Bookmark c)"
proof -
  have "c \<in> set (collect_bookmark_candidates queryStr bms)"
    using assms unfolding RankBookmarkCandidates_def sortBookmarkCandidates_def
    by (simp add: sort_outer_set)
  then show ?thesis by (rule collect_bookmark_candidates_member)
qed

lemma GetAllBookmarks_ran: "b \<in> set (GetAllBookmarks idx order) \<Longrightarrow> b \<in> ran (bookmarks idx)"
  by (auto simp: GetAllBookmarks_def List.map_filter_def ran_def)

lemma handleBookmarkSearch_location:
  "location (handleBookmarkSearch d env query w) = HomepageURL d
   \<or> (\<exists>b \<in> ran (bookmarks (memIndex w)). \<not> Bookmark.Disabled b
        \<and> location (handleBookmarkSearch d env query w) = URL b)"
proof -
  let ?qs = "TrimSpace (TrimPrefix query ''@'')"
  let ?bms = "GetAllBookmarks (memIndex w) (bookmark_order env)"
  show ?thesis
  proof (cases "RankBookmarkCandidates ?qs ?bms")
    case Nil
    then show ?thesis
      by (simp add: handleBookmarkSearch_def Redirect_def Let_def)
  next
    case (Cons best rest)
    then have "best \<in> set (RankBookmarkCandidates ?qs ?bms)" by simp
    then have "Bookmark best \<in> set ?bms" "\<not> Bookmark.Disabled (Bookmark best)"
      using RankBookmarkCandidates_member by blast+
    then have "Bookmark best \<in> ran (bookmarks (memIndex w))" "\<not> Bookmark.Disabled (Bookmark best)"
      using GetAllBookmarks_ran by blast+
    then show ?thesis
      using Cons by (auto simp: handleBookmarkSearch_def Redirect_def Let_def)
  qed
qed

lemma matchInternalEndpoint_member:
  "matchInternalEndpoint query \<noteq> [] \<Longrightarrow> matchInternalEndpoint query \<in> set internal_endpoints"
proof -
  let ?m = "filter (\<lambda>endpoint. HasPrefix endpoint (ToLower query)) internal_endpoints"
  assume ne: "matchInternalEndpoint query \<noteq> []"
  then have len: "length ?m = 1"
    by (simp add: matchInternalEndpoint_def Let_def split: if_splits)
  then have "hd ?m \<in> set ?m"
    by (cases ?m) simp_all
  then have "hd ?m \<in> set internal_endpoints" by simp
  then show ?thesis
    using len by (simp add: matchInternalEndpoint_def Let_def)
qed

lemma handleInternalEndpoint_location:
  "location (handleInternalEndpoint d r query) = HomepageURL d
   \<or> (\<exists>e \<in> set internal_endpoints.
        location (handleInternalEndpoint d r query) = ''https://'' @ Host r @ e)"
  using matchInternalEndpoint_member [of query]
  by (auto simp: handleInternalEndpoint_def Redirect_def Let_def)

lemma handleCachedService_location:
  assumes "handleCachedService d env query w = (Some response, w')"
  shows "status_code response = 302
    \<and> (location response = HomepageURL d
        \<or> (\<exists>h. location response = ''https://'' @ h \<and> isAllowedRedirect h (AllowedDomains d)))"
  using assms
  by (auto simp: handleCachedService_def Redirect_def Let_def
      split: sum.splits if_splits)

lemma first_healthy_allowed:
  "first_healthy d env i cs = Some c \<Longrightarrow>
     isAllowedRedirect (Hostname (Service c)) (AllowedDomains d)"
  by (induction cs arbitrary: i) (auto simp: Let_def split: if_splits)

lemma handleServiceSearch_location:
  "status_code (fst (handleServiceSearch tables d env query w)) = 302
   \<and> (location (fst (handleServiceSearch tables d env query w)) = HomepageURL d
      \<or> (\<exists>h. location (fst (handleServiceSearch tables d env query w)) = ''https://'' @ h
            \<and> isAllowedRedirect h (AllowedDomains d)))"
  using first_healthy_allowed
  by (auto simp: handleServiceSearch_def Redirect_def Let_def split: option.splits)

lemma Search_bookmark_example:
  "location (fst (Search latin1_tables example_deps example_env
       \<lparr>query_param = ''@chat'', Host = ''jump.example.com''\<rparr> example_world))
     = ''https://chat.openai.com/''"
proof -
  have r: "RankBookmarkCandidates ''chat'' [example_bookmark] =
      [\<lparr>Bookmark = example_bookmark, CandidateScore = 75\<rparr>]"
    by (simp add: RankBookmarkCandidates_def sortBookmarkCandidates_def ScoreBookmark_def
        sort_outer.simps example_bookmark_def score_eval string_eval)
  have "GetAllBookmarks (memIndex example_world) (bookmark_order example_env) = [example_bookmark]"
    by (simp add: GetAllBookmarks_def List.map_filter_def example_world_def example_env_def
        NewMemoryIndex_def)
  then show ?thesis
    using r
    by (simp add: Search_def handleBookmarkSearch_def Redirect_def TrimPrefix_def string_eval
        example_bookmark_def)
qed

text \<open>
  Claim C1, as stated, fails in the bookmark realm: the query \<open>@chat\<close> is redirected to
  the bookmark's URL, which is not the home URL and whose host no allowed domain
  covers.
\<close>

theorem Search_bookmark_counterexample:
  "location (fst (Search latin1_tables example_deps example_env
       \<lparr>query_param = ''@chat'', Host = ''jump.example.com''\<rparr> example_world))
     = ''https://chat.openai.com/''
   \<and> \<not> home_or_allowed example_deps ''https://chat.openai.com/''"
proof -
  have "\<not> home_or_allowed example_deps ''https://chat.openai.com/''"
    by (simp add: home_or_allowed_def url_host_def isAllowedRedirect_def HasSuffix_def
        example_deps_def string_eval)
  with Search_bookmark_example show ?thesis by simp
qed

text \<open>
  Claim C1, amended: for every configuration, environment, request and state,
  \<open>Search\<close> answers with a 302 whose Location is the home URL, or, for a query that
  starts with \<open>@\<close>, the URL of an enabled bookmark of the index (no allow-list applies),
  or, for a query that starts with \<open>/\<close>, \<open>https://\<close> followed by the request's Host and
  one of the three internal paths, or, for every other query, \<open>https://h\<close> for a
  hostname \<open>h\<close> that the redirect allow-list allows.
\<close>

theorem Search_location:
  fixes tables :: UnicodeTables and d :: Deps and env :: Env and r :: Request and w :: World
  defines "response \<equiv> fst (Search tables d env r w)"
    and "query \<equiv> TrimSpace (query_param r)"
  shows "status_code response = 302
   \<and> (location response = HomepageURL d
      \<or> (HasPrefix query ''@''
          \<and> (\<exists>b \<in> ran (bookmarks (memIndex w)). \<not> Bookmark.Disabled b
                \<and> location response = URL b))
      \<or> (HasPrefix query ''/''
          \<and> (\<exists>e \<in> set internal_endpoints. location response = ''https://'' @ Host r @ e))
      \<or> (query \<noteq> [] \<and> \<not> HasPrefix query ''@'' \<and> \<not> HasPrefix query ''/''
          \<and> (\<exists>h. location response = ''https://'' @ h
                \<and> isAllowedRedirect h (AllowedDomains d))))"
proof -
  consider (empty) "query = []"
    | (bookmark) "query \<noteq> []" "HasPrefix query ''@''"
    | (internal) "query \<noteq> []" "\<not> HasPrefix query ''@''" "HasPrefix query ''/''"
    | (service) "query \<noteq> []" "\<not> HasPrefix query ''@''" "\<not> HasPrefix query ''/''"
    by blast
  then show ?thesis
  proof cases
    case empty
    then show ?thesis
      unfolding response_def query_def by (simp add: Search_def Redirect_def)
  next
    case bookmark
    then have "response = handleBookmarkSearch d env query w"
      unfolding response_def query_def by (simp add: Search_def Let_def)
    moreover have "status_code (handleBookmarkSearch d env query w) = 302"
      by (simp add: handleBookmarkSearch_def Redirect_def Let_def split: list.splits)
    ultimately show ?thesis
      using handleBookmarkSearch_location [of d env query w] bookmark(2) by auto
  next
    case internal
    then have "response = handleInternalEndpoint d r query"
      unfolding response_def query_def by (simp add: Search_def Let_def)
    moreover have "status_code (handleInternalEndpoint d r query) = 302"
      by (simp add: handleInternalEndpoint_def Redirect_def Let_def)
    ultimately show ?thesis
      using handleInternalEndpoint_location [of d r query] internal(3) by auto
  next
    case service
    obtain res w' where c: "handleCachedService d env query w = (res, w')"
      by (cases "handleCachedService d env query w")
    show ?thesis
    proof (cases res)
      case None
      then have "response = fst (handleServiceSearch tables d env query w')"
        using service c unfolding response_def query_def by (simp add: Search_def Let_def)
      then show ?thesis
        using handleServiceSearch_location [of tables d env query w'] service by auto
    next
      case (Some resp)
      then have "response = resp"
        using service c unfolding response_def query_def by (simp add: Search_def Let_def)
      then show ?thesis
        using handleCachedService_location [of d env query w resp w'] c Some service by auto
    qed
  qed
qed

theorem Search_location_witness:
  "status_code (fst (Search latin1_tables example_deps example_env
       \<lparr>query_param = ''@chat'', Host = ''jump.example.com''\<rparr> example_world)) = 302
   \<and> HasPrefix (TrimSpace ''@chat'') ''@''
   \<and> location (fst (Search latin1_tables example_deps example_env
       \<lparr>query_param = ''@chat'', Host = ''jump.example.com''\<rparr> example_world))
       \<noteq> HomepageURL example_deps
   \<and> (\<exists>b \<in> ran (bookmarks (memIndex example_world)). \<not> Bookmark.Disabled b
         \<and> location (fst (Search latin1_tables example_deps example_env
             \<lparr>query_param = ''@chat'', Host = ''jump.example.com''\<rparr> example_world)) = URL b)"
proof -
  let ?r = "\<lparr>query_param = ''@chat'', Host = ''jump.example.com''\<rparr>"
  have loc: "location (fst (Search latin1_tables example_deps example_env ?r example_world))
      = ''https://chat.openai.com/''"
    by (rule Search_bookmark_example)
  have p: "HasPrefix (TrimSpace ''@chat'') ''@''" "\<not> HasPrefix (TrimSpace ''@chat'') ''/''"
    by (simp_all add: string_eval)
  have nh: "location (fst (Search latin1_tables example_deps example_env ?r example_world))
      \<noteq> HomepageURL example_deps"
    unfolding loc by (simp add: example_deps_def)
  from Search_location [of latin1_tables example_deps example_env ?r example_world] p nh
  show ?thesis by auto
qed
text \<open>
  The search path counts a use only together with a redirect to the counted hostname,
  which the allow-list allows.
\<close>

lemma handleServiceSearch_counts_on_redirect:
  assumes "snd (handleServiceSearch tables d env query w) \<noteq> w"
  shows "\<exists>h. isAllowedRedirect h (AllowedDomains d)
    \<and> fst (handleServiceSearch tables d env query w) = Redirect (''https://'' @ h)
    \<and> memIndex (snd (handleServiceSearch tables d env query w)) = IncrementCounter (memIndex w) h"
  using assms
  by (auto simp: handleServiceSearch_def Let_def split: option.splits if_splits
      dest: first_healthy_allowed)

text \<open>
  Claim C3 fails on the cached path: \<open>handleCachedService\<close> increments the counters of
  the cached hostname in the store and in the index before it checks the allow-list.
  With the resolution \<open>evil \<mapsto> evil.other.org\<close> in the cache, a passing probe and the
  allow-list \<open>example.com\<close>, the request is answered with the home redirect and both
  counters of \<open>evil.other.org\<close> go from 5 to 6.
\<close>

theorem handleCachedService_counts_before_allow_check:
  "fst (Search latin1_tables example_deps example_env
       \<lparr>query_param = ''evil'', Host = ''jump.example.com''\<rparr> example_world)
     = \<lparr>status_code = 302, location = ''https://home.example.com''\<rparr>
   \<and> map_option Counter (services (memIndex example_world) ''evil.other.org'') = Some 5
   \<and> map_option Counter (services (memIndex (snd (Search latin1_tables example_deps example_env
       \<lparr>query_param = ''evil'', Host = ''jump.example.com''\<rparr> example_world))) ''evil.other.org'')
       = Some 6
   \<and> map_option Counter (saved_services (redis example_world) ''evil.other.org'') = Some 5
   \<and> map_option Counter (saved_services (redis (snd (Search latin1_tables example_deps example_env
       \<lparr>query_param = ''evil'', Host = ''jump.example.com''\<rparr> example_world))) ''evil.other.org'')
       = Some 6"
  by (simp add: resolver_eval example_eval string_eval)

section \<open>Properties of the reconciler\<close>

lemmas reconciler_eval =
  Reload_def MapServices_def map_service_def extractServiceName_def getHomepageServices_def
  UpdateServices_def GetAllServices_def List.map_filter_def SaveServicesMany_def
  SaveService_def collectServices_def collectBookmarks_def Collect_def DeleteService_def
  GetAllBookmarks_def Sub_def IsZero_def maxDuration_def minDuration_def
  DefaultGCThreshold_def NewGarbageCollector_threshold_def hour_def
  example_catalog_def example_url_hostname_def example_scheduler_def example_index_def
  NewMemoryIndex_def example_service_def

lemma build_services_other:
  "key \<notin> ID ` set svcs \<Longrightarrow> build_services svcs m key = m key"
  by (induction svcs arbitrary: m) auto

lemma build_services_member:
  "key \<in> ID ` set svcs \<Longrightarrow>
     \<exists>s \<in> set svcs. ID s = key \<and> build_services svcs m key = Some s"
proof (induction svcs arbitrary: m)
  case Nil
  then show ?case by simp
next
  case (Cons a svcs)
  show ?case
  proof (cases "key \<in> ID ` set svcs")
    case True
    then obtain s where "s \<in> set svcs" "ID s = key"
        "build_services svcs (m(ID a \<mapsto> a)) key = Some s"
      using Cons.IH [of "m(ID a \<mapsto> a)"] by blast
    then show ?thesis by auto
  next
    case False
    then have "ID a = key" using Cons.prems by auto
    then show ?thesis using False by (simp add: build_services_other)
  qed
qed

lemma build_services_keyed:
  "build_services svcs Map.empty key = Some s \<Longrightarrow> ID s = key"
proof (cases "key \<in> ID ` set svcs")
  case True
  assume "build_services svcs Map.empty key = Some s"
  then show ?thesis using build_services_member [OF True, of Map.empty] by auto
next
  case False
  assume "build_services svcs Map.empty key = Some s"
  then show ?thesis using build_services_other [OF False, of Map.empty] by simp
qed

lemma UpdateServices_keyed: "keyed_by_id (UpdateServices idx svcs t)"
  by (auto simp: keyed_by_id_def UpdateServices_def dest: build_services_keyed)

lemma mark_removed_set:
  "set (mark_removed existing ids t) =
     (\<lambda>e. e\<lparr>Disabled := True, UpdatedAt := t\<rparr>) ` {e \<in> set existing. ID e \<notin> ids}"
  by (induction existing) auto

lemma GetAllServices_member:
  "services idx key = Some s \<Longrightarrow> key \<in> set order \<Longrightarrow> s \<in> set (GetAllServices idx order)"
  by (force simp: GetAllServices_def List.map_filter_def)

lemma GetAllServices_elem:
  "s \<in> set (GetAllServices idx order) \<Longrightarrow> \<exists>key. services idx key = Some s"
  by (auto simp: GetAllServices_def List.map_filter_def)

text \<open>A successful reload pass over a catalog without the entry \<open>x\<close> leaves \<open>x\<close> in the
  index, disabled, with \<open>UpdatedAt\<close> set to the time of this pass: also when \<open>x\<close> was
  disabled by an earlier pass already.\<close>

lemma Reload_marks_removed:
  assumes tr: "tracked x idx" and ord: "x \<in> set order"
    and mp: "MapServices url_hostname t config = Inr newServices"
    and gone: "x \<notin> ID ` set newServices"
  shows "soft_deleted x t (fst (snd (Reload url_hostname t order save_ok (Inr config) (idx, store))))"
    and "keyed_by_id (fst (snd (Reload url_hostname t order save_ok (Inr config) (idx, store))))"
proof -
  let ?existing = "getHomepageServices idx order"
  let ?disabled = "mark_removed ?existing (set (map ID newServices)) t"
  let ?all = "newServices @ ?disabled"
  have idx': "fst (snd (Reload url_hostname t order save_ok (Inr config) (idx, store))) =
      UpdateServices idx ?all t"
    using mp by (simp add: Reload_def Let_def)
  show "keyed_by_id (fst (snd (Reload url_hostname t order save_ok (Inr config) (idx, store))))"
    unfolding idx' by (rule UpdateServices_keyed)
  obtain s where s: "services idx x = Some s" "ID s = x" "''homepage'' \<in> set (Sources s)"
    using tr by (auto simp: tracked_def split: option.splits)
  have "s \<in> set ?existing"
    using s ord by (simp add: getHomepageServices_def GetAllServices_member)
  then have "s\<lparr>Disabled := True, UpdatedAt := t\<rparr> \<in> set ?disabled"
    using s(2) gone unfolding mark_removed_set by auto
  moreover have "ID (s\<lparr>Disabled := True, UpdatedAt := t\<rparr>) = x"
    using s(2) by simp
  ultimately have "x \<in> ID ` set ?disabled"
    by (metis image_eqI)
  then have "x \<in> ID ` set ?all"
    by auto
  then obtain s' where s': "s' \<in> set ?all" "ID s' = x"
      "build_services ?all Map.empty x = Some s'"
    using build_services_member [of x ?all Map.empty] by blast
  have "s' \<in> set ?disabled"
    using s'(1,2) gone by auto
  then obtain e where e: "e \<in> set ?existing" "s' = e\<lparr>Disabled := True, UpdatedAt := t\<rparr>"
    unfolding mark_removed_set by auto
  have "''homepage'' \<in> set (Sources e)"
    using e(1) by (simp add: getHomepageServices_def)
  then have "ID s' = x \<and> ''homepage'' \<in> set (Sources s') \<and> Disabled s' \<and> UpdatedAt s' = t"
    using s'(2) e(2) by simp
  then show "soft_deleted x t (fst (snd (Reload url_hostname t order save_ok (Inr config) (idx, store))))"
    unfolding idx' using s'(3) by (simp add: soft_deleted_def UpdateServices_def)
qed

lemma collect_services_loop_keeps:
  assumes "\<And>e. e \<in> set svcs \<Longrightarrow> ID e = x \<Longrightarrow>
      \<not> Disabled e \<or> IsZero (UpdatedAt e) \<or> Sub t (UpdatedAt e) < threshold"
  shows "services (fst (collect_services_loop threshold t delete_ok svcs (idx, store, n))) x =
      services idx x"
  using assms
proof (induction svcs arbitrary: idx store n)
  case Nil
  show ?case by simp
next
  case (Cons a svcs)
  have rest: "\<And>e. e \<in> set svcs \<Longrightarrow> ID e = x \<Longrightarrow>
      \<not> Disabled e \<or> IsZero (UpdatedAt e) \<or> Sub t (UpdatedAt e) < threshold"
    using Cons.prems by simp
  show ?case
  proof (cases "\<not> Disabled a \<or> IsZero (UpdatedAt a) \<or> Sub t (UpdatedAt a) < threshold")
    case True
    then have "collect_services_loop threshold t delete_ok (a # svcs) (idx, store, n) =
        collect_services_loop threshold t delete_ok svcs (idx, store, n)"
      by auto
    then show ?thesis using Cons.IH [OF rest] by simp
  next
    case False
    then have "ID a \<noteq> x" using Cons.prems [of a] by auto
    then show ?thesis
      using False Cons.IH [OF rest] by (simp add: DeleteService_def)
  qed
qed

lemma collect_services_loop_subset:
  "services (fst (collect_services_loop threshold t delete_ok svcs (idx, store, n))) key = Some s
     \<Longrightarrow> services idx key = Some s"
proof (induction svcs arbitrary: idx store n)
  case Nil
  then show ?case by simp
next
  case (Cons a svcs)
  show ?case
  proof (cases "\<not> Disabled a \<or> IsZero (UpdatedAt a) \<or> Sub t (UpdatedAt a) < threshold")
    case True
    then have "collect_services_loop threshold t delete_ok (a # svcs) (idx, store, n) =
        collect_services_loop threshold t delete_ok svcs (idx, store, n)"
      by auto
    then show ?thesis using Cons.prems Cons.IH by simp
  next
    case False
    then have "collect_services_loop threshold t delete_ok (a # svcs) (idx, store, n) =
        collect_services_loop threshold t delete_ok svcs
          (DeleteService idx (ID a),
           (case store of
              None \<Rightarrow> None
            | Some st \<Rightarrow> Some (snd (Store_DeleteService st (delete_ok (ID a)) (ID a)))),
           n + 1)"
      by simp
    then have "services (DeleteService idx (ID a)) key = Some s"
      using Cons.prems Cons.IH by simp
    then show ?thesis
      by (simp add: DeleteService_def split: if_splits)
  qed
qed

lemma collect_bookmarks_loop_services:
  "services (fst (collect_bookmarks_loop threshold t delete_ok bms (idx, store, n))) =
     services idx"
  by (induction bms arbitrary: idx store n) (simp_all add: DeleteBookmark_def)

lemma Collect_services:
  "services (fst (Collect threshold t delete_ok order bkeys (idx, store))) =
     services (fst (collect_services_loop threshold t delete_ok (GetAllServices idx order)
       (idx, store, 0)))"
proof -
  obtain idx1 store1 n1 where c1: "collect_services_loop threshold t delete_ok
      (GetAllServices idx order) (idx, store, 0) = (idx1, store1, n1)"
    by (metis prod_cases3)
  obtain idx2 store2 n2 where c2: "collect_bookmarks_loop threshold t delete_ok
      (GetAllBookmarks idx1 bkeys) (idx1, store1, 0) = (idx2, store2, n2)"
    by (metis prod_cases3)
  have "services idx2 = services idx1"
    using collect_bookmarks_loop_services
      [of threshold t delete_ok "GetAllBookmarks idx1 bkeys" idx1 store1 0] c2 by simp
  then show ?thesis
    by (simp add: Collect_def collectServices_def collectBookmarks_def c1 c2)
qed

text \<open>A collection pass keeps a soft-deleted entry whose \<open>UpdatedAt\<close> is less than the
  threshold ago.\<close>

lemma Collect_keeps_recent:
  assumes sd: "soft_deleted x t0 idx" and keyed: "keyed_by_id idx"
    and recent: "Sub t t0 < threshold"
  shows "soft_deleted x t0 (fst (Collect threshold t delete_ok order bkeys (idx, store)))"
    and "keyed_by_id (fst (Collect threshold t delete_ok order bkeys (idx, store)))"
proof -
  let ?idx' = "fst (Collect threshold t delete_ok order bkeys (idx, store))"
  obtain s where s: "services idx x = Some s" "UpdatedAt s = t0"
    using sd by (auto simp: soft_deleted_def split: option.splits)
  have "\<not> Disabled e \<or> IsZero (UpdatedAt e) \<or> Sub t (UpdatedAt e) < threshold"
    if mem: "e \<in> set (GetAllServices idx order)" and ide: "ID e = x" for e
  proof -
    obtain k where "services idx k = Some e"
      using GetAllServices_elem [OF mem] by blast
    then have "e = s" using keyed ide s(1) by (auto simp: keyed_by_id_def)
    then show ?thesis using s(2) recent by simp
  qed
  then have "services ?idx' x = services idx x"
    unfolding Collect_services by (rule collect_services_loop_keeps)
  then show "soft_deleted x t0 ?idx'"
    using sd by (simp add: soft_deleted_def)
  show "keyed_by_id ?idx'"
    unfolding keyed_by_id_def
  proof (intro allI impI)
    fix k s'
    assume "services ?idx' k = Some s'"
    then have "services idx k = Some s'"
      unfolding Collect_services by (rule collect_services_loop_subset)
    then show "ID s' = k"
      using keyed by (simp add: keyed_by_id_def)
  qed
qed

lemma soft_deleted_tracked: "soft_deleted x t idx \<Longrightarrow> tracked x idx"
  by (auto simp: soft_deleted_def tracked_def split: option.splits)

lemma example_MapServices:
  "MapServices example_url_hostname t example_catalog =
     Inr [\<lparr>ID = ''kept.example.com'', Hostname = ''kept.example.com'', Name = ''kept'',
           Sources = [''homepage''], LastSeenAt = t, Counter = 0, CreatedAt = 0,
           UpdatedAt = 0, LastUsedAt = 0, Disabled = False\<rparr>]"
  by (simp add: MapServices_def map_service_def extractServiceName_def example_catalog_def
      example_url_hostname_def)

lemma hour_below_threshold: "Sub (t + hour) t < gc_threshold example_scheduler"
  by (simp add: Sub_def hour_def example_scheduler_def NewGarbageCollector_threshold_def
      DefaultGCThreshold_def maxDuration_def minDuration_def)

lemma example_day:
  assumes tr: "tracked ''gone.example.com'' idx"
  shows "soft_deleted ''gone.example.com'' t0
    (fst (run_pass example_scheduler (CollectPass (t0 + hour))
       (run_pass example_scheduler (ReloadPass t0 (Inr example_catalog)) (idx, store))))"
proof -
  let ?r = "Reload example_url_hostname t0 (service_keys example_scheduler) True
      (Inr example_catalog) (idx, store)"
  have ord: "''gone.example.com'' \<in> set (service_keys example_scheduler)"
    by (simp add: example_scheduler_def)
  have gone: "''gone.example.com'' \<notin> ID ` set [\<lparr>ID = ''kept.example.com'',
      Hostname = ''kept.example.com'', Name = ''kept'', Sources = [''homepage''],
      LastSeenAt = t0, Counter = 0, CreatedAt = 0, UpdatedAt = 0, LastUsedAt = 0,
      Disabled = False\<rparr>]"
    by simp
  have sd: "soft_deleted ''gone.example.com'' t0 (fst (snd ?r))"
    and k: "keyed_by_id (fst (snd ?r))"
    using Reload_marks_removed [OF tr ord example_MapServices gone] by blast+
  obtain idx1 store1 where r1: "snd ?r = (idx1, store1)" by (cases "snd ?r")
  have sd1: "soft_deleted ''gone.example.com'' t0 idx1" and k1: "keyed_by_id idx1"
    using sd k r1 by simp_all
  have "soft_deleted ''gone.example.com'' t0
      (fst (Collect (gc_threshold example_scheduler) (t0 + hour) (\<lambda>key. True)
        (service_keys example_scheduler) (bookmark_keys example_scheduler) (idx1, store1)))"
    using Collect_keeps_recent(1) [OF sd1 k1 hour_below_threshold] .
  then show ?thesis
    using r1 by (simp add: example_scheduler_def)
qed

lemma daily_passes_soft_deleted:
  assumes "tracked ''gone.example.com'' (fst state)"
  shows "soft_deleted ''gone.example.com'' (t0 + int n * (24 * hour))
    (fst (run_passes example_scheduler (daily_passes t0 (Suc n)) state))"
  using assms
proof (induction n arbitrary: t0 state)
  case 0
  obtain idx store where st: "state = (idx, store)" by (cases state)
  then have "tracked ''gone.example.com'' idx" using "0.prems" by simp
  then show ?case
    unfolding st using example_day [of idx t0 store] by simp
next
  case (Suc n)
  obtain idx store where st: "state = (idx, store)" by (cases state)
  then have tr: "tracked ''gone.example.com'' idx" using Suc.prems by simp
  let ?day = "run_pass example_scheduler (CollectPass (t0 + hour))
       (run_pass example_scheduler (ReloadPass t0 (Inr example_catalog)) (idx, store))"
  have "tracked ''gone.example.com'' (fst ?day)"
    using example_day [OF tr] by (rule soft_deleted_tracked)
  then have "soft_deleted ''gone.example.com'' (t0 + 24 * hour + int n * (24 * hour))
      (fst (run_passes example_scheduler (daily_passes (t0 + 24 * hour) (Suc n)) ?day))"
    by (rule Suc.IH)
  moreover have "t0 + 24 * hour + int n * (24 * hour) = t0 + int (Suc n) * (24 * hour)"
    by (simp add: algebra_simps)
  moreover have "run_passes example_scheduler (daily_passes t0 (Suc (Suc n))) state =
      run_passes example_scheduler (daily_passes (t0 + 24 * hour) (Suc n)) ?day"
    unfolding st by simp
  ultimately show ?case by simp
qed

lemma MapServices_counter:
  assumes "MapServices url_hostname t config = Inr newServices" "s \<in> set newServices"
  shows "Counter s = 0"
proof -
  have "Counter s' = 0" if "s' \<in> set (map_service url_hostname t props)" for s' props
    using that by (auto simp: map_service_def split: if_splits option.splits)
  then show ?thesis
    using assms by (auto simp: MapServices_def Let_def split: if_splits)
qed

text \<open>A successful reload pass stores every service of the loaded catalog with the
  counter 0, whatever its counter was before the pass.\<close>

lemma Reload_counter_zero:
  assumes mp: "MapServices url_hostname t config = Inr newServices"
    and mem: "key \<in> ID ` set newServices"
  shows "\<exists>s. services (fst (snd (Reload url_hostname t order save_ok (Inr config)
      (idx, store)))) key = Some s \<and> Counter s = 0"
proof -
  let ?existing = "getHomepageServices idx order"
  let ?disabled = "mark_removed ?existing (set (map ID newServices)) t"
  let ?all = "newServices @ ?disabled"
  have idx': "fst (snd (Reload url_hostname t order save_ok (Inr config) (idx, store))) =
      UpdateServices idx ?all t"
    using mp by (simp add: Reload_def Let_def)
  have "key \<in> ID ` set ?all" using mem by auto
  then obtain s where s: "s \<in> set ?all" "ID s = key"
      "build_services ?all Map.empty key = Some s"
    using build_services_member [of key ?all Map.empty] by blast
  have "s \<notin> set ?disabled"
    using s(2) mem unfolding mark_removed_set by auto
  then have "s \<in> set newServices" using s(1) by simp
  then have "Counter s = 0" using mp by (rule MapServices_counter [rotated])
  then show ?thesis
    unfolding idx' using s(3) by (simp add: UpdateServices_def)
qed

text \<open>
  Claim C2 fails on the reload pass: a service that is still in the catalog is stored
  again as the mapper builds it, with the counter 0. The index holds
  \<open>kept.example.com\<close> with the counter 5; after a reload of a catalog that contains
  \<open>https://kept.example.com\<close> its counter is 0.
\<close>

theorem Reload_resets_counter:
  "map_option Counter (services example_index ''kept.example.com'') = Some 5
   \<and> map_option Counter
        (services (fst (snd (Reload example_url_hostname 1000 (service_keys example_scheduler)
           True (Inr example_catalog) (example_index, None)))) ''kept.example.com'') = Some 0"
  by (simp add: reconciler_eval)

text \<open>
  Claim C4 fails with the default intervals. Every reload pass marks the entries that
  are missing from the catalog again, also those that are disabled already, and sets
  their \<open>UpdatedAt\<close> to the time of the pass. With a reload pass every 24 hours, a
  collection pass one hour after each, and the threshold of 30 days, the entry
  \<open>gone.example.com\<close>, which has left the catalog, is in the index after every day,
  disabled, with \<open>UpdatedAt\<close> the time of that day's reload: no collection pass sees
  it older than one hour. A collection pass 30 days after the first reload, with no
  reload in between, does delete it.
\<close>

theorem removed_entry_never_collected:
  "tracked ''gone.example.com'' example_index
   \<and> (\<forall>n. soft_deleted ''gone.example.com'' (1000 + int n * (24 * hour))
          (fst (run_passes example_scheduler (daily_passes 1000 (Suc n))
            (example_index, None))))
   \<and> (\<forall>n. services (fst (run_passes example_scheduler (daily_passes 1000 n)
            (example_index, None))) ''gone.example.com'' \<noteq> None)
   \<and> services (fst (run_passes example_scheduler
          [ReloadPass 1000 (Inr example_catalog), CollectPass (1000 + 30 * (24 * hour))]
          (example_index, None))) ''gone.example.com'' = None"
proof -
  have tr: "tracked ''gone.example.com'' example_index"
    by (simp add: tracked_def example_index_def NewMemoryIndex_def example_service_def)
  have sd: "soft_deleted ''gone.example.com'' (1000 + int n * (24 * hour))
          (fst (run_passes example_scheduler (daily_passes 1000 (Suc n))
            (example_index, None)))" for n
    using tr by (intro daily_passes_soft_deleted) simp
  have "services (fst (run_passes example_scheduler (daily_passes 1000 n)
            (example_index, None))) ''gone.example.com'' \<noteq> None" for n
  proof (cases n)
    case 0
    then show ?thesis using tr by (auto simp: tracked_def split: option.splits)
  next
    case (Suc m)
    then show ?thesis
      using sd [of m] by (auto simp: soft_deleted_def split: option.splits)
  qed
  moreover have "services (fst (run_passes example_scheduler
          [ReloadPass 1000 (Inr example_catalog), CollectPass (1000 + 30 * (24 * hour))]
          (example_index, None))) ''gone.example.com'' = None"
    by (simp add: reconciler_eval)
  ultimately show ?thesis using tr sd by blast
qed

end
